theory Spec2Isabelle
  imports Main "HOL-Library.Word"
begin

section \<open>Strings\<close>

text \<open>
  A JavaScript string is a sequence of 16-bit code units; \<open>length\<close>, \<open>slice\<close>,
  \<open>startsWith\<close>, \<open>trim\<close> and the regular expression of the handler all work on code
  units. \<open>js\<close> writes an ASCII literal as such a sequence.
\<close>

type_synonym jschar = "16 word"
type_synonym jstring = "jschar list"

definition js :: "string \<Rightarrow> jstring" where
  "js s = map of_char s"

section \<open>The rate limiter\<close>

text \<open>
  \<^verbatim>\<open>const recent = new Map();\<close> maps a client address to the time of its last accepted
  request. \<open>rateLimit\<close> reads the clock once (\<^verbatim>\<open>Date.now()\<close>, the argument \<open>now\<close>) and
  returns its verdict together with the map as it leaves it. The optional argument is the
  parameter \<^verbatim>\<open>windowMs = 2500\<close>. \<^verbatim>\<open>recent.get(ip) || 0\<close> is 0 for a missing entry and for
  a stored 0 alike.
\<close>

type_synonym recent = "jstring \<rightharpoonup> int"

definition windowOf :: "int option \<Rightarrow> int" where
  "windowOf windowArg = (case windowArg of None \<Rightarrow> 2500 | Some w \<Rightarrow> w)"

definition lastOf :: "recent \<Rightarrow> jstring \<Rightarrow> int" where
  "lastOf recent ip = (case recent ip of None \<Rightarrow> 0 | Some t \<Rightarrow> if t = 0 then 0 else t)"

definition rateLimit :: "jstring \<Rightarrow> int option \<Rightarrow> int \<Rightarrow> recent \<Rightarrow> bool \<times> recent" where
  "rateLimit ip windowArg now recent =
     (let windowMs = windowOf windowArg;
          lastT = lastOf recent ip
      in if now - lastT < windowMs then (False, recent)
         else (True, recent(ip \<mapsto> now)))"

text \<open>
  A run of the limiter over a sequence of arrivals (client, clock reading), all with the
  same window argument: the clock readings at which requests of \<open>ip\<close> were accepted.
\<close>

fun acceptedAt :: "int option \<Rightarrow> jstring \<Rightarrow> (jstring \<times> int) list \<Rightarrow> recent \<Rightarrow> int list" where
  "acceptedAt w ip [] r = []"
| "acceptedAt w ip ((c, t) # rest) r =
     (case rateLimit c w t r of
        (ok, r') \<Rightarrow> (if ok \<and> c = ip then [t] else []) @ acceptedAt w ip rest r')"

section \<open>JavaScript values\<close>

text \<open>
  The values the handler touches are the results of \<^verbatim>\<open>JSON.parse\<close> and of
  \<^verbatim>\<open>Response.json()\<close>, and \<^verbatim>\<open>undefined\<close> for a property that is not there. A Number is
  kept as the two things this program observes of it: whether it is falsy (0, -0, NaN)
  and its rendering by \<^verbatim>\<open>String\<close>. An object is the list of its own properties; a key
  listed twice counts at its first place.
\<close>

datatype exn = TypeError | SyntaxError | NoJson

datatype jsnum = JsNum (zeroOrNaN: bool) (rendering: jstring)

datatype jsval =
    JUndefined
  | JNull
  | JBool bool
  | JNum jsnum
  | JStr jstring
  | JArr "jsval list"
  | JObj "(jstring \<times> jsval) list"

definition thenE :: "exn + 'a \<Rightarrow> ('a \<Rightarrow> exn + 'b) \<Rightarrow> exn + 'b" where
  "thenE r f = (case r of Inl e \<Rightarrow> Inl e | Inr v \<Rightarrow> f v)"

definition nullish :: "jsval \<Rightarrow> bool" where
  "nullish v = (v = JUndefined \<or> v = JNull)"

text \<open>\<^verbatim>\<open>ToBoolean\<close>, as \<^verbatim>\<open>||\<close> and \<^verbatim>\<open>!\<close> apply it.\<close>

fun truthy :: "jsval \<Rightarrow> bool" where
  "truthy JUndefined = False"
| "truthy JNull = False"
| "truthy (JBool b) = b"
| "truthy (JNum n) = (\<not> zeroOrNaN n)"
| "truthy (JStr s) = (s \<noteq> [])"
| "truthy (JArr xs) = True"
| "truthy (JObj kvs) = True"

text \<open>
  \<^verbatim>\<open>String(x)\<close>. An array is joined with commas, \<^verbatim>\<open>undefined\<close> and \<^verbatim>\<open>null\<close> elements
  giving the empty string. A plain object gives \<^verbatim>\<open>[object Object]\<close> through
  \<^verbatim>\<open>Object.prototype.toString\<close>, unless it has an own property \<^verbatim>\<open>toString\<close>: a parsed
  value is never callable, \<^verbatim>\<open>valueOf\<close> returns no primitive, and the conversion throws a
  TypeError.
\<close>

fun toStr :: "jsval \<Rightarrow> exn + jstring"
  and joinElems :: "jsval list \<Rightarrow> exn + jstring" where
  "toStr JUndefined = Inr (js ''undefined'')"
| "toStr JNull = Inr (js ''null'')"
| "toStr (JBool b) = Inr (if b then js ''true'' else js ''false'')"
| "toStr (JNum n) = Inr (rendering n)"
| "toStr (JStr s) = Inr s"
| "toStr (JArr xs) = joinElems xs"
| "toStr (JObj kvs) =
     (if map_of kvs (js ''toString'') \<noteq> None then Inl TypeError
      else Inr (js ''[object Object]''))"
| "joinElems [] = Inr []"
| "joinElems (x # xs) =
     thenE (if nullish x then Inr [] else toStr x) (\<lambda>s.
       if xs = [] then Inr s
       else thenE (joinElems xs) (\<lambda>r. Inr (s @ js '','' @ r)))"

text \<open>
  \<^verbatim>\<open>s.slice(0, e)\<close> for an integer \<open>e\<close>: a negative end counts from the end of the string.
\<close>

definition slice0 :: "jstring \<Rightarrow> int \<Rightarrow> jstring" where
  "slice0 s e =
     (let len = int (length s);
          to = (if e < 0 then max (len + e) 0 else min e len)
      in take (nat to) s)"

definition startsWith :: "jstring \<Rightarrow> jstring \<Rightarrow> bool" where
  "startsWith s p = (take (length p) s = p)"

text \<open>\<^verbatim>\<open>s.trim()\<close> removes white space and line terminators at both ends.\<close>

definition isWhite :: "jschar \<Rightarrow> bool" where
  "isWhite c =
     (c = 0x9 \<or> c = 0xA \<or> c = 0xB \<or> c = 0xC \<or> c = 0xD \<or> c = 0x20 \<or> c = 0xA0 \<or>
      c = 0x1680 \<or> (0x2000 \<le> c \<and> c \<le> 0x200A) \<or> c = 0x2028 \<or> c = 0x2029 \<or>
      c = 0x202F \<or> c = 0x205F \<or> c = 0x3000 \<or> c = 0xFEFF)"

definition trim :: "jstring \<Rightarrow> jstring" where
  "trim s = rev (dropWhile isWhite (rev (dropWhile isWhite s)))"

text \<open>
  Reading a named property. \<open>ownProp\<close> is \<^verbatim>\<open>v.k\<close> for a value that is neither
  \<^verbatim>\<open>undefined\<close> nor \<^verbatim>\<open>null\<close> and a name that no built-in prototype defines, as are all
  names the handler reads (\<^verbatim>\<open>ingredients\<close>, \<^verbatim>\<open>choices\<close>, \<^verbatim>\<open>message\<close>, \<^verbatim>\<open>content\<close>,
  \<^verbatim>\<open>title\<close>, \<^verbatim>\<open>intro\<close>, \<^verbatim>\<open>steps\<close>, \<^verbatim>\<open>optional\<close>, \<^verbatim>\<open>note\<close>). \<open>getField\<close> adds
  the TypeError of reading a property of \<^verbatim>\<open>undefined\<close> or \<^verbatim>\<open>null\<close>; \<open>index0\<close> is
  \<^verbatim>\<open>v[0]\<close>.
\<close>

fun ownProp :: "jsval \<Rightarrow> jstring \<Rightarrow> jsval" where
  "ownProp (JObj kvs) k = (case map_of kvs k of None \<Rightarrow> JUndefined | Some v \<Rightarrow> v)"
| "ownProp v k = JUndefined"

definition getField :: "jsval \<Rightarrow> jstring \<Rightarrow> exn + jsval" where
  "getField v k = (if nullish v then Inl TypeError else Inr (ownProp v k))"

fun index0 :: "jsval \<Rightarrow> jsval" where
  "index0 (JArr xs) = (case xs of [] \<Rightarrow> JUndefined | x # rest \<Rightarrow> x)"
| "index0 (JStr s) = (case s of [] \<Rightarrow> JUndefined | c # rest \<Rightarrow> JStr [c])"
| "index0 (JObj kvs) = ownProp (JObj kvs) (js ''0'')"
| "index0 v = JUndefined"

section \<open>The sanitizer\<close>

text \<open>
  \<^verbatim>\<open>function safeString(x, max = 800) { return String(x || "").slice(0, max); }\<close>
  The optional argument is the parameter \<^verbatim>\<open>max\<close>.
\<close>

definition maxOf :: "int option \<Rightarrow> int" where
  "maxOf maxArg = (case maxArg of None \<Rightarrow> 800 | Some m \<Rightarrow> m)"

definition safeString :: "jsval \<Rightarrow> int option \<Rightarrow> exn + jstring" where
  "safeString x maxArg =
     thenE (toStr (if truthy x then x else JStr [])) (\<lambda>s. Inr (slice0 s (maxOf maxArg)))"

section \<open>Parsing the provider's content\<close>

text \<open>
  \<^verbatim>\<open>text.match(/\{[\s\S]*\}$/)\<close>: the leftmost position from which the pattern matches.
  From a position it matches iff an opening brace stands there and the string ends, later,
  with a closing brace; the match then runs to the end of the string.
\<close>

definition matchesHere :: "jstring \<Rightarrow> bool" where
  "matchesHere s = (case s of [] \<Rightarrow> False
                    | c # rest \<Rightarrow> c = 0x7B \<and> rest \<noteq> [] \<and> last rest = 0x7D)"

fun fallbackMatch :: "jstring \<Rightarrow> jstring option" where
  "fallbackMatch [] = None"
| "fallbackMatch (c # rest) =
     (if matchesHere (c # rest) then Some (c # rest) else fallbackMatch rest)"

text \<open>
  The \<^verbatim>\<open>try { parsed = JSON.parse(text) } catch { ... }\<close> block. \<^verbatim>\<open>JSON.parse\<close> is the
  platform's; it is the parameter \<open>parse\<close>, \<open>None\<close> where it throws.
\<close>

definition parseContent :: "(jstring \<Rightarrow> jsval option) \<Rightarrow> jstring \<Rightarrow> exn + jsval" where
  "parseContent parse text =
     (case parse text of
        Some parsed \<Rightarrow> Inr parsed
      | None \<Rightarrow>
          (case fallbackMatch text of
             Some m \<Rightarrow> (case parse m of Some parsed \<Rightarrow> Inr parsed | None \<Rightarrow> Inl SyntaxError)
           | None \<Rightarrow> Inl NoJson))"

section \<open>The response object\<close>

record out =
  title :: jstring
  intro :: jstring
  steps :: "jstring list"
  optional :: "jstring list"
  note' :: jstring

text \<open>\<^verbatim>\<open>xs.map(s => safeString(s, max))\<close>\<close>

fun mapSafe :: "jsval list \<Rightarrow> int \<Rightarrow> exn + jstring list" where
  "mapSafe [] m = Inr []"
| "mapSafe (x # xs) m =
     thenE (safeString x (Some m)) (\<lambda>s. thenE (mapSafe xs m) (\<lambda>r. Inr (s # r)))"

definition addPrefix :: "jstring \<Rightarrow> jstring" where
  "addPrefix s = (if startsWith s (js ''Optional:'') then s else js ''Optional: '' @ s)"

definition stepsOf :: "jsval \<Rightarrow> exn + jstring list" where
  "stepsOf v = (case v of JArr xs \<Rightarrow> mapSafe (take 8 xs) 220 | _ \<Rightarrow> Inr [])"

definition optionalOf :: "jsval \<Rightarrow> exn + jstring list" where
  "optionalOf v =
     (case v of
        JArr xs \<Rightarrow> thenE (mapSafe (take 5 xs) 220) (\<lambda>ss. Inr (map addPrefix ss))
      | _ \<Rightarrow> Inr [])"

definition buildOut :: "jsval \<Rightarrow> exn + out" where
  "buildOut parsed =
     thenE (getField parsed (js ''title'')) (\<lambda>t.
     thenE (safeString t (Some 140)) (\<lambda>title'.
     thenE (getField parsed (js ''intro'')) (\<lambda>i.
     thenE (safeString i (Some 420)) (\<lambda>intro'.
     thenE (getField parsed (js ''steps'')) (\<lambda>st.
     thenE (stepsOf st) (\<lambda>steps'.
     thenE (getField parsed (js ''optional'')) (\<lambda>opt.
     thenE (optionalOf opt) (\<lambda>optional'.
     thenE (getField parsed (js ''note'')) (\<lambda>n.
     thenE (safeString n (Some 260)) (\<lambda>note''.
     Inr \<lparr>title = title', intro = intro', steps = steps',
          optional = optional', note' = note''\<rparr>))))))))))"

text \<open>The object \<open>out\<close> as a value, for running the sanitization on it again.\<close>

definition outValue :: "out \<Rightarrow> jsval" where
  "outValue out =
     JObj [(js ''title'', JStr (title out)),
           (js ''intro'', JStr (intro out)),
           (js ''steps'', JArr (map JStr (steps out))),
           (js ''optional'', JArr (map JStr (optional out))),
           (js ''note'', JStr (note' out))]"

section \<open>The handler\<close>

text \<open>
  A request as the handler reads it: its method (\<^verbatim>\<open>req.method\<close>), the two headers (\<open>None\<close> for the
  \<^verbatim>\<open>null\<close> of \<^verbatim>\<open>headers.get\<close>), and what \<^verbatim>\<open>req.json()\<close> resolves to (\<open>None\<close> when it
  rejects). The world of one invocation: the clock, the environment variable, the
  platform's \<^verbatim>\<open>JSON.parse\<close>, and the provider's answer to the outbound call. Of the
  outbound call the model keeps what varies, the key and the user's input; the answer is
  \<open>Failed\<close> when \<^verbatim>\<open>fetch\<close> throws or rejects, and otherwise \<^verbatim>\<open>resp.ok\<close> with what
  \<^verbatim>\<open>resp.text()\<close> and \<^verbatim>\<open>resp.json()\<close> resolve to.
\<close>

record request =
  httpMethod :: jstring
  connectionIp :: "jstring option"
  forwardedFor :: "jstring option"
  body :: "jsval option"

record call =
  bearer :: jstring
  userInput :: jstring

datatype fetched = Failed | Responded bool "jstring option" "jsval option"

record world =
  clock :: int
  apiKey :: "jstring option"
  jsonParse :: "jstring \<Rightarrow> jsval option"
  fetch :: "call \<Rightarrow> fetched"

datatype payload = Text jstring | Json out

record response =
  status :: nat
  content :: payload

definition plain :: "nat \<Rightarrow> string \<Rightarrow> response" where
  "plain code msg = \<lparr>status = code, content = Text (js msg)\<rparr>"

definition serverError :: response where
  "serverError = plain 500 ''Server error''"

text \<open>\<^verbatim>\<open>h || d\<close> for a header value.\<close>

definition orElse :: "jstring option \<Rightarrow> jstring \<Rightarrow> jstring" where
  "orElse h d = (case h of None \<Rightarrow> d | Some s \<Rightarrow> if s = [] then d else s)"

definition clientIp :: "request \<Rightarrow> jstring" where
  "clientIp req = orElse (connectionIp req) (orElse (forwardedFor req) (js ''unknown''))"

text \<open>\<^verbatim>\<open>json?.choices?.[0]?.message?.content?.trim() || ""\<close>\<close>

definition contentText :: "jsval \<Rightarrow> exn + jstring" where
  "contentText json =
     (let c =
        (if nullish json then JUndefined
         else let choices = ownProp json (js ''choices'') in
           if nullish choices then JUndefined
           else let first = index0 choices in
             if nullish first then JUndefined
             else let message = ownProp first (js ''message'') in
               if nullish message then JUndefined
               else ownProp message (js ''content''))
      in if nullish c then Inr []
         else (case c of JStr s \<Rightarrow> Inr (trim s) | _ \<Rightarrow> Inl TypeError))"

text \<open>From the parsed content to the response: lines 112 to 134, inside the \<^verbatim>\<open>try\<close>.\<close>

definition respond :: "(jstring \<Rightarrow> jsval option) \<Rightarrow> jstring \<Rightarrow> response" where
  "respond parse text =
     (case thenE (parseContent parse text) buildOut of
        Inl e \<Rightarrow> serverError
      | Inr out \<Rightarrow> \<lparr>status = 200, content = Json out\<rparr>)"

text \<open>
  The handler returns its response, the map \<open>recent\<close> as it leaves it, and the outbound
  calls it made. Every exception inside the \<^verbatim>\<open>try\<close> ends in \<open>serverError\<close>.
\<close>

definition afterFetch :: "world \<Rightarrow> fetched \<Rightarrow> response" where
  "afterFetch w resp =
     (case resp of
        Failed \<Rightarrow> serverError
      | Responded ok txt jsn \<Rightarrow>
          if \<not> ok then
            \<lparr>status = 502,
             content = Text (orElse txt (js ''OpenAI request failed''))\<rparr>
          else (case jsn of
                  None \<Rightarrow> serverError
                | Some json \<Rightarrow>
                    (case contentText json of
                       Inl e \<Rightarrow> serverError
                     | Inr text \<Rightarrow> respond (jsonParse w) text)))"

definition afterLimit :: "world \<Rightarrow> request \<Rightarrow> response \<times> call list" where
  "afterLimit w req =
     (case thenE (getField (case body req of None \<Rightarrow> JObj [] | Some v \<Rightarrow> v) (js ''ingredients''))
             (\<lambda>ingredients. safeString ingredients (Some 700)) of
        Inl e \<Rightarrow> (serverError, [])
      | Inr s \<Rightarrow>
          let input = trim s in
          if input = [] then (plain 400 ''Missing ingredients'', [])
          else (case apiKey w of
                  None \<Rightarrow> (plain 500 ''Server missing OPENAI_API_KEY'', [])
                | Some k \<Rightarrow>
                    if k = [] then (plain 500 ''Server missing OPENAI_API_KEY'', [])
                    else let c = \<lparr>bearer = k, userInput = input\<rparr>
                         in (afterFetch w (fetch w c), [c])))"

definition handler :: "world \<Rightarrow> request \<Rightarrow> recent \<Rightarrow> response \<times> recent \<times> call list" where
  "handler w req recent =
     (if httpMethod req \<noteq> js ''POST'' then (plain 405 ''Method Not Allowed'', recent, [])
      else
        let ip = clientIp req in
        (case rateLimit ip None (clock w) recent of
           (allowed, recent') \<Rightarrow>
             if \<not> allowed then
               (plain 429 ''Too many requests. Please slow down.'', recent', [])
             else (case afterLimit w req of (resp, calls) \<Rightarrow> (resp, recent', calls))))"

section \<open>Observations on an invocation\<close>

text \<open>
  The outbound call the handler makes once the rate limit has let the request through, if
  it makes one; and the provider content that the handler goes on to parse, if the
  invocation gets that far: a POST within the rate limit, ingredients present, a key, a
  successful answer whose envelope yields a text.
\<close>

definition providerCall :: "world \<Rightarrow> request \<Rightarrow> call option" where
  "providerCall w req =
     (case thenE (getField (case body req of None \<Rightarrow> JObj [] | Some v \<Rightarrow> v) (js ''ingredients''))
             (\<lambda>ingredients. safeString ingredients (Some 700)) of
        Inl e \<Rightarrow> None
      | Inr s \<Rightarrow>
          if trim s = [] then None
          else (case apiKey w of
                  None \<Rightarrow> None
                | Some k \<Rightarrow> if k = [] then None else Some \<lparr>bearer = k, userInput = trim s\<rparr>))"

definition contentReached :: "world \<Rightarrow> request \<Rightarrow> recent \<Rightarrow> jstring option" where
  "contentReached w req recent =
     (if httpMethod req = js ''POST'' \<and> fst (rateLimit (clientIp req) None (clock w) recent) then
        (case providerCall w req of
           None \<Rightarrow> None
         | Some c \<Rightarrow>
             (case fetch w c of
                Failed \<Rightarrow> None
              | Responded ok txt jsn \<Rightarrow>
                  if ok then
                    (case jsn of
                       None \<Rightarrow> None
                     | Some json \<Rightarrow>
                         (case contentText json of Inl e \<Rightarrow> None | Inr text \<Rightarrow> Some text))
                  else None))
      else None)"

text \<open>
  A value is plain when \<^verbatim>\<open>String\<close> cannot throw on it or on its elements: a primitive, or
  an array of primitives.
\<close>

fun primitive :: "jsval \<Rightarrow> bool" where
  "primitive (JArr xs) = False"
| "primitive (JObj kvs) = False"
| "primitive v = True"

fun plainValue :: "jsval \<Rightarrow> bool" where
  "plainValue (JArr xs) = list_all primitive xs"
| "plainValue (JObj kvs) = False"
| "plainValue v = True"

text \<open>
  The string conversion of a field throws: \<^verbatim>\<open>String\<close> throws on the title, the intro or
  the note, or on one of the first 8 entries of a steps array, or on one of the first 5
  entries of an optional array.
\<close>

definition entryThrows :: "nat \<Rightarrow> jsval \<Rightarrow> bool" where
  "entryThrows n v =
     (case v of JArr xs \<Rightarrow> list_ex (\<lambda>x. isl (toStr x)) (take n xs) | _ \<Rightarrow> False)"

definition conversionThrows :: "jsval \<Rightarrow> bool" where
  "conversionThrows parsed =
     (isl (toStr (ownProp parsed (js ''title''))) \<or>
      isl (toStr (ownProp parsed (js ''intro''))) \<or>
      entryThrows 8 (ownProp parsed (js ''steps'')) \<or>
      entryThrows 5 (ownProp parsed (js ''optional'')) \<or>
      isl (toStr (ownProp parsed (js ''note''))))"

text \<open>
  Sample invocations: a POST from one address with the given body; a world with the given
  clock and a key, whose provider answers 200 with the given content in the usual
  envelope, and whose \<^verbatim>\<open>JSON.parse\<close> is given by its values on the strings of a table
  and throws elsewhere.
\<close>

definition envelope :: "jsval \<Rightarrow> jsval" where
  "envelope c =
     JObj [(js ''choices'', JArr [JObj [(js ''message'', JObj [(js ''content'', c)])]])]"

definition sampleRequest :: "jsval option \<Rightarrow> request" where
  "sampleRequest b =
     \<lparr>httpMethod = js ''POST'', connectionIp = Some (js ''203.0.113.7''),
      forwardedFor = None, body = b\<rparr>"

definition sampleBody :: jsval where
  "sampleBody = JObj [(js ''ingredients'', JStr (js ''eggs, spinach, leftover rice''))]"

definition sampleWorld :: "int \<Rightarrow> (jstring \<times> jsval) list \<Rightarrow> jsval \<Rightarrow> world" where
  "sampleWorld t table c =
     \<lparr>clock = t, apiKey = Some (js ''sk-test''), jsonParse = map_of table,
      fetch = (\<lambda>call. Responded True None (Some (envelope c)))\<rparr>"

section \<open>Properties of the rate limiter\<close>

lemma lastOf_upd_same: "lastOf (r(ip \<mapsto> t)) ip = t"
  by (simp add: lastOf_def)

lemma lastOf_upd_other: "c \<noteq> ip \<Longrightarrow> lastOf (r(c \<mapsto> t)) ip = lastOf r ip"
  by (simp add: lastOf_def)

lemma acceptedAt_spaced:
  "successively (\<lambda>a b. windowOf w \<le> b - a) (acceptedAt w ip reqs r) \<and>
   (case acceptedAt w ip reqs r of [] \<Rightarrow> True | t # _ \<Rightarrow> windowOf w \<le> t - lastOf r ip)"
proof (induction reqs arbitrary: r)
  case Nil
  show ?case by simp
next
  case (Cons q reqs)
  obtain c t where q: "q = (c, t)" by (cases q)
  show ?case
  proof (cases "t - lastOf r c < windowOf w")
    case True
    then have "acceptedAt w ip (q # reqs) r = acceptedAt w ip reqs r"
      by (simp add: q rateLimit_def)
    with Cons.IH [of r] show ?thesis by simp
  next
    case False
    note ok = False
    show ?thesis
    proof (cases "c = ip")
      case True
      have step: "acceptedAt w ip (q # reqs) r = t # acceptedAt w ip reqs (r(ip \<mapsto> t))"
        using ok True by (simp add: q rateLimit_def)
      define L where "L = acceptedAt w ip reqs (r(ip \<mapsto> t))"
      have ih: "successively (\<lambda>a b. windowOf w \<le> b - a) L \<and>
                (case L of [] \<Rightarrow> True | u # _ \<Rightarrow> windowOf w \<le> u - t)"
        using Cons.IH [of "r(ip \<mapsto> t)"] unfolding L_def lastOf_upd_same .
      have "windowOf w \<le> t - lastOf r ip"
        using ok True by simp
      moreover have "successively (\<lambda>a b. windowOf w \<le> b - a) (t # L)"
        using ih by (cases L) simp_all
      ultimately show ?thesis
        unfolding step L_def [symmetric] by simp
    next
      case False
      have step: "acceptedAt w ip (q # reqs) r = acceptedAt w ip reqs (r(c \<mapsto> t))"
        using ok False by (simp add: q rateLimit_def)
      from Cons.IH [of "r(c \<mapsto> t)"] show ?thesis
        unfolding step lastOf_upd_other [OF False] .
    qed
  qed
qed

text \<open>
  C1. The handler's only call is \<^verbatim>\<open>rateLimit(ip)\<close>, with the default window of 2500 ms,
  on a reading of \<^verbatim>\<open>Date.now()\<close>, which counts the milliseconds since 1970 and so is at
  least the window. For every client identifier and every such reading (more generally,
  every window argument not above the clock reading) the limiter allows the request if
  and only if no timestamp is recorded for the identifier or the clock reading minus the
  recorded timestamp is at least the window. An allowed request records the clock reading
  as the new timestamp, a denied one returns denied and leaves the map as it was, and in
  every run the accepted requests of one client are spaced, each from the one before, by
  at least the window.
\<close>

theorem rateLimit_window:
  assumes "rateLimit ip w now r = (allowed, r')"
    and "windowOf w \<le> now"
  shows "(allowed \<longleftrightarrow> r ip = None \<or> (\<exists>t. r ip = Some t \<and> windowOf w \<le> now - t)) \<and>
         (allowed \<longrightarrow> r' = r(ip \<mapsto> now)) \<and>
         (\<not> allowed \<longrightarrow> r' = r) \<and>
         windowOf None = 2500 \<and>
         successively (\<lambda>a b. windowOf w \<le> b - a) (acceptedAt w ip reqs r)"
proof -
  have "successively (\<lambda>a b. windowOf w \<le> b - a) (acceptedAt w ip reqs r)"
    using acceptedAt_spaced [of w ip reqs r] by simp
  moreover have "windowOf None = 2500"
    by (simp add: windowOf_def)
  moreover have "(allowed \<longleftrightarrow> windowOf w \<le> now - lastOf r ip) \<and>
         (allowed \<longrightarrow> r' = r(ip \<mapsto> now)) \<and> (\<not> allowed \<longrightarrow> r' = r)"
    using assms(1) by (auto simp: rateLimit_def Let_def split: if_splits)
  moreover have
      "(windowOf w \<le> now - lastOf r ip) = (r ip = None \<or> (\<exists>t. r ip = Some t \<and> windowOf w \<le> now - t))"
    using assms(2) by (cases "r ip") (auto simp: lastOf_def)
  ultimately show ?thesis by blast
qed

theorem rateLimit_window_witness:
  "windowOf None \<le> 1700000003000 \<and>
   rateLimit (js ''a'') None 1700000003000 [js ''a'' \<mapsto> 1700000000000]
     = (True, [js ''a'' \<mapsto> 1700000003000]) \<and>
   rateLimit (js ''a'') None 1700000003000 Map.empty
     = (True, [js ''a'' \<mapsto> 1700000003000]) \<and>
   rateLimit (js ''a'') None 1700000003000 [js ''a'' \<mapsto> 1700000001000]
     = (False, [js ''a'' \<mapsto> 1700000001000]) \<and>
   acceptedAt None (js ''a'')
     [(js ''a'', 1700000003000), (js ''a'', 1700000004000), (js ''b'', 1700000004500),
      (js ''a'', 1700000005600)]
     [js ''a'' \<mapsto> 1700000000000] = [1700000003000, 1700000005600]"
proof -
  have le: "windowOf None \<le> 1700000003000"
    by (simp add: windowOf_def)
  have run: "rateLimit (js ''a'') None 1700000003000 [js ''a'' \<mapsto> 1700000000000]
     = (True, [js ''a'' \<mapsto> 1700000003000])"
    by (simp add: rateLimit_def windowOf_def lastOf_def)
  have fresh: "rateLimit (js ''a'') None 1700000003000 Map.empty
     = (True, [js ''a'' \<mapsto> 1700000003000])"
    by (simp add: rateLimit_def windowOf_def lastOf_def)
  have soon: "rateLimit (js ''a'') None 1700000003000 [js ''a'' \<mapsto> 1700000001000]
     = (False, [js ''a'' \<mapsto> 1700000001000])"
    by (simp add: rateLimit_def windowOf_def lastOf_def)
  have "successively (\<lambda>a b. windowOf None \<le> b - a)
          (acceptedAt None (js ''a'')
             [(js ''a'', 1700000003000), (js ''a'', 1700000004000), (js ''b'', 1700000004500),
              (js ''a'', 1700000005600)]
             [js ''a'' \<mapsto> 1700000000000])"
    using rateLimit_window [OF run le] by blast
  moreover have "acceptedAt None (js ''a'')
     [(js ''a'', 1700000003000), (js ''a'', 1700000004000), (js ''b'', 1700000004500),
      (js ''a'', 1700000005600)]
     [js ''a'' \<mapsto> 1700000000000] = [1700000003000, 1700000005600]"
    by (simp add: rateLimit_def windowOf_def lastOf_def js_def)
  ultimately show ?thesis using le run fresh soon by simp
qed

section \<open>Auxiliary facts\<close>

lemma thenE_Inr_iff: "thenE r f = Inr v \<longleftrightarrow> (\<exists>a. r = Inr a \<and> f a = Inr v)"
  by (cases r) (simp_all add: thenE_def)

lemma thenE_Inr [simp]: "thenE (Inr a) f = f a"
  by (simp add: thenE_def)

lemma thenE_Inl [simp]: "thenE (Inl e) f = Inl e"
  by (simp add: thenE_def)

lemma slice0_nonneg: "0 \<le> e \<Longrightarrow> slice0 s e = take (nat e) s"
  by (simp add: slice0_def Let_def min_def)

lemma slice0_Nil [simp]: "slice0 [] e = []"
  by (simp add: slice0_def Let_def)

lemma safeString_falsy: "\<not> truthy x \<Longrightarrow> safeString x m = Inr []"
  by (simp add: safeString_def)

lemma safeString_truthy:
  "truthy x \<Longrightarrow> safeString x m = thenE (toStr x) (\<lambda>s. Inr (slice0 s (maxOf m)))"
  by (simp add: safeString_def)

lemma safeString_Str: "safeString (JStr s) m = Inr (slice0 s (maxOf m))"
  by (cases "s = []") (simp_all add: safeString_def)

lemma safeString_length:
  "safeString x (Some m) = Inr s \<Longrightarrow> 0 \<le> m \<Longrightarrow> length s \<le> nat m"
  by (auto simp: safeString_def thenE_Inr_iff maxOf_def slice0_nonneg)

lemma mapSafe_bounds:
  "mapSafe xs m = Inr ss \<Longrightarrow> 0 \<le> m \<Longrightarrow>
   length ss = length xs \<and> (\<forall>s\<in>set ss. length s \<le> nat m)"
proof (induction xs arbitrary: ss)
  case Nil
  then show ?case by simp
next
  case (Cons x xs)
  from Cons.prems(1) obtain s r where s: "safeString x (Some m) = Inr s"
    and r: "mapSafe xs m = Inr r" and ss: "ss = s # r"
    by (auto simp: thenE_Inr_iff)
  from Cons.IH [OF r Cons.prems(2)] safeString_length [OF s Cons.prems(2)] ss
  show ?case by simp
qed

lemma mapSafe_Str: "mapSafe (map JStr ss) m = Inr (map (\<lambda>s. slice0 s m) ss)"
  by (induction ss) (simp_all add: safeString_Str maxOf_def)

lemma startsWith_addPrefix: "startsWith (addPrefix s) (js ''Optional:'')"
  by (simp add: addPrefix_def startsWith_def js_def)

lemma length_addPrefix: "length (addPrefix s) \<le> length s + 10"
  by (simp add: addPrefix_def js_def)

lemma buildOut_Inr_iff:
  "buildOut v = Inr res \<longleftrightarrow>
     \<not> nullish v \<and>
     safeString (ownProp v (js ''title'')) (Some 140) = Inr (title res) \<and>
     safeString (ownProp v (js ''intro'')) (Some 420) = Inr (intro res) \<and>
     stepsOf (ownProp v (js ''steps'')) = Inr (steps res) \<and>
     optionalOf (ownProp v (js ''optional'')) = Inr (optional res) \<and>
     safeString (ownProp v (js ''note'')) (Some 260) = Inr (note' res)"
  by (cases res) (auto simp: buildOut_def thenE_Inr_iff getField_def)

lemma handler_reached:
  assumes "contentReached w req r = Some text"
  shows "fst (handler w req r) = respond (jsonParse w) text"
proof -
  from assms have post: "httpMethod req = js ''POST''"
    and ok: "fst (rateLimit (clientIp req) None (clock w) r)"
    by (auto simp: contentReached_def split: if_splits)
  from assms post ok obtain c where c: "providerCall w req = Some c"
    by (auto simp: contentReached_def split: option.splits)
  from assms post ok c obtain tx json where f: "fetch w c = Responded True tx (Some json)"
    and t: "contentText json = Inr text"
    by (auto simp: contentReached_def split: fetched.splits option.splits if_splits sum.splits)
  from c f t have "afterLimit w req = (respond (jsonParse w) text, [c])"
    by (auto simp: providerCall_def afterLimit_def afterFetch_def Let_def
             split: sum.splits if_splits option.splits)
  with post ok show ?thesis
    by (cases "rateLimit (clientIp req) None (clock w) r") (simp add: handler_def Let_def)
qed

lemma respond_parsed:
  "parseContent parse text = Inr v \<Longrightarrow>
   respond parse text = (case buildOut v of Inl e \<Rightarrow> serverError
                         | Inr res \<Rightarrow> \<lparr>status = 200, content = Json res\<rparr>)"
  by (simp add: respond_def)

lemma status_serverError [simp]: "status serverError = 500"
  by (simp add: serverError_def plain_def)


section \<open>The sample invocations\<close>

lemma contentText_envelope: "contentText (envelope (JStr c)) = Inr (trim c)"
  by (simp add: contentText_def envelope_def nullish_def js_def Let_def)

lemma sample_call:
  "providerCall (sampleWorld t table c) (sampleRequest (Some sampleBody))
     = Some \<lparr>bearer = js ''sk-test'', userInput = js ''eggs, spinach, leftover rice''\<rparr>"
  by (simp add: providerCall_def sampleWorld_def sampleRequest_def sampleBody_def getField_def
        nullish_def safeString_Str maxOf_def slice0_nonneg trim_def isWhite_def js_def)

lemma sample_reached:
  assumes "2500 \<le> t"
  shows "contentReached (sampleWorld t table (JStr c)) (sampleRequest (Some sampleBody)) Map.empty
           = Some (trim c)"
proof -
  have "fst (rateLimit (clientIp (sampleRequest (Some sampleBody))) None
               (clock (sampleWorld t table (JStr c))) Map.empty)"
    using assms by (simp add: rateLimit_def windowOf_def lastOf_def sampleWorld_def)
  moreover have "httpMethod (sampleRequest (Some sampleBody)) = js ''POST''"
    by (simp add: sampleRequest_def)
  moreover have "fetch (sampleWorld t table (JStr c)) k
                   = Responded True None (Some (envelope (JStr c)))" for k
    by (simp add: sampleWorld_def)
  ultimately show ?thesis
    by (simp add: contentReached_def sample_call contentText_envelope)
qed

section \<open>The sanitizer's contract\<close>

text \<open>
  C5 (as stated, refuted). \<^verbatim>\<open>false\<close> has the string representation \<^verbatim>\<open>"false"\<close> and is neither
  absent, null nor undefined, yet the sanitizer returns the empty string for it. A
  negative \<open>maxLength\<close> does not truncate to that many characters: it drops characters
  from the end. And the operation fails on an object that has an own property
  \<^verbatim>\<open>toString\<close>, as \<^verbatim>\<open>JSON.parse('{"toString": 1}')\<close> has.
\<close>

theorem safeString_falsy_and_throwing:
  "safeString (JBool False) None = Inr [] \<and> toStr (JBool False) = Inr (js ''false'') \<and>
   safeString (JStr (js ''abc'')) (Some (- 1)) = Inr (js ''ab'') \<and>
   safeString (JObj [(js ''toString'', JNum (JsNum False (js ''1'')))]) None = Inl TypeError"
  by (simp add: safeString_def maxOf_def slice0_def js_def)

lemma toStr_primitive: "primitive x \<Longrightarrow> \<exists>s. toStr x = Inr s"
  by (cases x) simp_all

text \<open>
  C5 (amended). For every input value and maxLength: a falsy input (undefined, null,
  false, a zero or NaN number, the empty string) gives the empty string; any other input
  gives its string representation cut by \<^verbatim>\<open>slice(0, maxLength)\<close> (default 800), which for a
  maxLength of at least 0 is its first maxLength characters. The operation fails exactly
  when the string conversion of the value throws, which it never does for undefined, null,
  a boolean, a number or a string.
\<close>

theorem safeString_spec:
  "(\<not> truthy x \<longrightarrow> safeString x m = Inr []) \<and>
   (truthy x \<longrightarrow>
      safeString x m =
        (case toStr x of Inl e \<Rightarrow> Inl e | Inr s \<Rightarrow> Inr (slice0 s (maxOf m)))) \<and>
   (0 \<le> maxOf m \<longrightarrow> slice0 s (maxOf m) = take (nat (maxOf m)) s) \<and>
   maxOf None = 800 \<and>
   (safeString x m = Inl e \<longleftrightarrow> toStr x = Inl e) \<and>
   (primitive x \<longrightarrow> safeString x m \<noteq> Inl e)"
proof -
  have a: "\<not> truthy x \<longrightarrow> safeString x m = Inr []"
    by (simp add: safeString_falsy)
  have b: "truthy x \<longrightarrow>
      safeString x m =
        (case toStr x of Inl e \<Rightarrow> Inl e | Inr s \<Rightarrow> Inr (slice0 s (maxOf m)))"
    by (simp add: safeString_truthy thenE_def)
  have c: "0 \<le> maxOf m \<longrightarrow> slice0 s (maxOf m) = take (nat (maxOf m)) s"
    by (simp add: slice0_nonneg)
  have d: "maxOf None = 800"
    by (simp add: maxOf_def)
  have e: "safeString x m = Inl e \<longleftrightarrow> toStr x = Inl e"
  proof (cases "truthy x")
    case True
    then show ?thesis by (simp add: safeString_truthy thenE_def split: sum.splits)
  next
    case False
    then have "primitive x" by (cases x) simp_all
    with toStr_primitive [of x] False show ?thesis by (auto simp: safeString_falsy)
  qed
  have f: "primitive x \<longrightarrow> safeString x m \<noteq> Inl e"
    using e toStr_primitive [of x] by auto
  from a b c d e f show ?thesis by blast
qed

theorem safeString_spec_witness:
  "truthy (JNum (JsNum False (js ''42''))) \<and> primitive (JNum (JsNum False (js ''42''))) \<and>
   safeString (JNum (JsNum False (js ''42''))) (Some 1) = Inr (js ''4'') \<and>
   \<not> truthy JNull \<and> safeString JNull None = Inr []"
  using safeString_spec [of "JNum (JsNum False (js ''42''))" "Some 1" "js ''42''" TypeError]
    safeString_spec [of JNull None "[]" TypeError]
  by (simp add: maxOf_def js_def)

section \<open>The prefix of optional entries\<close>

lemma startsWith_take:
  "startsWith (take 220 s) (js ''Optional:'') = startsWith s (js ''Optional:'')"
  by (simp add: startsWith_def js_def min_def)

lemma mapSafe_nth:
  "mapSafe xs m = Inr ss \<Longrightarrow> i < length xs \<Longrightarrow> safeString (xs ! i) (Some m) = Inr (ss ! i)"
proof (induction xs arbitrary: ss i)
  case Nil
  then show ?case by simp
next
  case (Cons x xs)
  from Cons.prems(1) obtain s r where s: "safeString x (Some m) = Inr s"
    and r: "mapSafe xs m = Inr r" and ss: "ss = s # r"
    by (auto simp: thenE_Inr_iff)
  show ?case
  proof (cases i)
    case 0
    with s ss show ?thesis by simp
  next
    case (Suc j)
    with Cons.prems(2) have "j < length xs" by simp
    from Cons.IH [OF r this] Suc ss show ?thesis by simp
  qed
qed

lemma optionalOf_Arr_iff:
  "optionalOf (JArr xs) = Inr os \<longleftrightarrow> (\<exists>ss. mapSafe (take 5 xs) 220 = Inr ss \<and> os = map addPrefix ss)"
  by (auto simp: optionalOf_def thenE_Inr_iff)

text \<open>
  C6 (as stated, refuted). An entry that already begins with \<^verbatim>\<open>Optional:\<close> is not always
  left unchanged: one of 309 characters comes out cut to 220.
\<close>

theorem optional_long_entry_cut:
  "startsWith (js ''Optional:'' @ replicate 300 0x78) (js ''Optional:'') \<and>
   optionalOf (JArr [JStr (js ''Optional:'' @ replicate 300 0x78)])
     = Inr [js ''Optional:'' @ replicate 211 0x78] \<and>
   js ''Optional:'' @ replicate 211 0x78 \<noteq> js ''Optional:'' @ replicate 300 (0x78 :: jschar)"
proof -
  have "optionalOf (JArr [JStr (js ''Optional:'' @ replicate 300 0x78)])
     = Inr [js ''Optional:'' @ replicate 211 0x78]"
    by (simp add: optionalOf_def safeString_Str maxOf_def slice0_nonneg addPrefix_def
          startsWith_def js_def)
  moreover have "length (js ''Optional:'' @ replicate 211 (0x78 :: jschar))
       \<noteq> length (js ''Optional:'' @ replicate 300 (0x78 :: jschar))"
    by (simp add: js_def)
  ultimately show ?thesis
    by (auto simp: startsWith_def js_def)
qed

text \<open>
  C6 (amended). The output keeps the first five entries of the parsed array. For every
  string entry among them, the output entry is the entry cut to its first 220 characters,
  with \<^verbatim>\<open>"Optional: "\<close> put in front exactly when the entry does not begin with
  \<^verbatim>\<open>"Optional:"\<close>; an entry that begins with it and is at most 220 characters long is
  left unchanged. No entry that has the prefix receives it again.
\<close>

theorem optional_prefixing:
  assumes "optionalOf (JArr xs) = Inr os"
  shows "length os = min 5 (length xs) \<and>
         (\<forall>i < length os. \<forall>s. xs ! i = JStr s \<longrightarrow>
            os ! i = (if startsWith s (js ''Optional:'') then take 220 s
                      else js ''Optional: '' @ take 220 s) \<and>
            (startsWith s (js ''Optional:'') \<and> length s \<le> 220 \<longrightarrow> os ! i = s))"
proof -
  from assms obtain ss where ss: "mapSafe (take 5 xs) 220 = Inr ss" and os: "os = map addPrefix ss"
    by (auto simp: optionalOf_Arr_iff)
  from mapSafe_bounds [OF ss] have len: "length ss = min 5 (length xs)"
    by (simp add: min.commute)
  have "os ! i = (if startsWith s (js ''Optional:'') then take 220 s
                      else js ''Optional: '' @ take 220 s) \<and>
            (startsWith s (js ''Optional:'') \<and> length s \<le> 220 \<longrightarrow> os ! i = s)"
    if i: "i < length os" and s: "xs ! i = JStr s" for i s
  proof -
    from i os len have i5: "i < 5" "i < length xs" "i < length ss" by simp_all
    then have "safeString (take 5 xs ! i) (Some 220) = Inr (ss ! i)"
      using mapSafe_nth [OF ss, of i] by simp
    with i5 s have "ss ! i = take 220 s"
      by (simp add: safeString_Str maxOf_def slice0_nonneg)
    with i5 os have "os ! i = addPrefix (take 220 s)" by simp
    then show ?thesis
      by (simp add: addPrefix_def startsWith_take)
  qed
  with len os show ?thesis by simp
qed

theorem optional_prefixing_witness:
  "optionalOf (JArr [JStr (js ''garlic if you have it''), JStr (js ''Optional: chili flakes'')])
     = Inr [js ''Optional: garlic if you have it'', js ''Optional: chili flakes'']"
proof -
  have run: "optionalOf (JArr [JStr (js ''garlic if you have it''), JStr (js ''Optional: chili flakes'')])
     = Inr [js ''Optional: garlic if you have it'', js ''Optional: chili flakes'']"
    by (simp add: optionalOf_def safeString_Str maxOf_def slice0_nonneg addPrefix_def
          startsWith_def js_def)
  from optional_prefixing [OF run] show ?thesis using run by simp
qed


section \<open>The shape of the 200 response\<close>

lemma joinElems_primitive: "list_all primitive xs \<Longrightarrow> \<exists>s. joinElems xs = Inr s"
proof (induction xs)
  case Nil
  show ?case by simp
next
  case (Cons x xs)
  then obtain r where r: "joinElems xs = Inr r" by auto
  from Cons.prems have "primitive x" by simp
  then obtain s where s: "toStr x = Inr s" using toStr_primitive by blast
  from r s show ?case by simp
qed

lemma toStr_plain: "plainValue v \<Longrightarrow> \<exists>s. toStr v = Inr s"
  by (cases v) (simp_all add: joinElems_primitive)

lemma safeString_plain: "plainValue v \<Longrightarrow> \<exists>s. safeString v m = Inr s"
proof (cases "truthy v")
  case True
  assume "plainValue v"
  then obtain s where "toStr v = Inr s" using toStr_plain by blast
  with True show ?thesis by (simp add: safeString_truthy)
next
  case False
  then show ?thesis by (simp add: safeString_falsy)
qed

lemma primitive_plain: "primitive v \<Longrightarrow> plainValue v"
  by (cases v) simp_all

lemma mapSafe_primitive: "list_all primitive xs \<Longrightarrow> \<exists>ss. mapSafe xs m = Inr ss"
proof (induction xs)
  case Nil
  show ?case by simp
next
  case (Cons x xs)
  then obtain r where r: "mapSafe xs m = Inr r" by auto
  from Cons.prems have "plainValue x" by (simp add: primitive_plain)
  then obtain s where "safeString x (Some m) = Inr s" using safeString_plain by blast
  with r show ?case by simp
qed

lemma list_all_take: "list_all P xs \<Longrightarrow> list_all P (take n xs)"
  by (auto simp: list_all_iff dest: in_set_takeD)

lemma stepsOf_plain: "plainValue v \<Longrightarrow> \<exists>ss. stepsOf v = Inr ss"
  by (cases v) (simp_all add: stepsOf_def mapSafe_primitive list_all_take)

lemma optionalOf_plain: "plainValue v \<Longrightarrow> \<exists>ss. optionalOf v = Inr ss"
proof (cases v)
  case (JArr xs)
  assume "plainValue v"
  with JArr have "list_all primitive (take 5 xs)" by (simp add: list_all_take)
  then obtain ss where "mapSafe (take 5 xs) 220 = Inr ss" using mapSafe_primitive by blast
  with JArr show ?thesis by (simp add: optionalOf_def)
qed (simp_all add: optionalOf_def)

lemma buildOut_plain:
  assumes "\<not> nullish v"
    and "plainValue (ownProp v (js ''title''))" and "plainValue (ownProp v (js ''intro''))"
    and "plainValue (ownProp v (js ''steps''))" and "plainValue (ownProp v (js ''optional''))"
    and "plainValue (ownProp v (js ''note''))"
  shows "\<exists>res. buildOut v = Inr res"
proof -
  obtain t where t: "safeString (ownProp v (js ''title'')) (Some 140) = Inr t"
    using safeString_plain [OF assms(2)] by blast
  obtain i where i: "safeString (ownProp v (js ''intro'')) (Some 420) = Inr i"
    using safeString_plain [OF assms(3)] by blast
  obtain st where st: "stepsOf (ownProp v (js ''steps'')) = Inr st"
    using stepsOf_plain [OF assms(4)] by blast
  obtain opt where opt: "optionalOf (ownProp v (js ''optional'')) = Inr opt"
    using optionalOf_plain [OF assms(5)] by blast
  obtain n where n: "safeString (ownProp v (js ''note'')) (Some 260) = Inr n"
    using safeString_plain [OF assms(6)] by blast
  have "buildOut v = Inr \<lparr>title = t, intro = i, steps = st, optional = opt, note' = n\<rparr>"
    unfolding buildOut_Inr_iff using assms(1) t i st opt n by simp
  then show ?thesis ..
qed

lemma stepsOf_bounds:
  "stepsOf v = Inr ss \<Longrightarrow> length ss \<le> 8 \<and> (\<forall>s\<in>set ss. length s \<le> 220)"
proof (cases v)
  case (JArr xs)
  assume "stepsOf v = Inr ss"
  with JArr have "mapSafe (take 8 xs) 220 = Inr ss" by (simp add: stepsOf_def)
  from mapSafe_bounds [OF this] show ?thesis by simp
qed (auto simp: stepsOf_def)

lemma stepsOf_not_array: "(\<forall>xs. v \<noteq> JArr xs) \<Longrightarrow> stepsOf v = Inr []"
  by (cases v) (simp_all add: stepsOf_def)

lemma optionalOf_not_array: "(\<forall>xs. v \<noteq> JArr xs) \<Longrightarrow> optionalOf v = Inr []"
  by (cases v) (simp_all add: optionalOf_def)

lemma optionalOf_bounds:
  assumes "optionalOf v = Inr os"
  shows "length os \<le> 5 \<and>
         (\<forall>s\<in>set os. length s \<le> 230 \<and> startsWith s (js ''Optional:''))"
proof (cases v)
  case (JArr xs)
  with assms obtain ss where ss: "mapSafe (take 5 xs) 220 = Inr ss" and os: "os = map addPrefix ss"
    by (auto simp: optionalOf_Arr_iff)
  from mapSafe_bounds [OF ss] have len: "length ss \<le> 5" and each: "\<forall>s\<in>set ss. length s \<le> 220"
    by simp_all
  have "length (addPrefix s) \<le> 230" if "s \<in> set ss" for s
    using each that length_addPrefix [of s] by fastforce
  with len os show ?thesis by (auto simp: startsWith_addPrefix)
qed (use assms in \<open>auto simp: optionalOf_def\<close>)

lemma buildOut_samples:
  "buildOut (JObj [(js ''optional'', JArr [JStr (replicate 220 0x61)])])
     = Inr \<lparr>title = [], intro = [], steps = [],
            optional = [js ''Optional: '' @ replicate 220 0x61], note' = []\<rparr> \<and>
   length (js ''Optional: '' @ replicate 220 (0x61 :: jschar)) = 230 \<and>
   buildOut (JObj [(js ''title'', JBool True)])
     = Inr \<lparr>title = js ''true'', intro = [], steps = [], optional = [], note' = []\<rparr> \<and>
   buildOut (JObj [(js ''title'', JObj [(js ''toString'', JBool True)])]) = Inl TypeError"
proof -
  have a: "buildOut (JObj [(js ''optional'', JArr [JStr (replicate 220 0x61)])])
     = Inr \<lparr>title = [], intro = [], steps = [],
            optional = [js ''Optional: '' @ replicate 220 0x61], note' = []\<rparr>"
    by (simp add: buildOut_Inr_iff nullish_def safeString_falsy stepsOf_def optionalOf_def
          safeString_Str maxOf_def slice0_nonneg addPrefix_def startsWith_def js_def)
  have b: "length (js ''Optional: '' @ replicate 220 (0x61 :: jschar)) = 230"
    by (simp add: js_def)
  have c: "buildOut (JObj [(js ''title'', JBool True)])
     = Inr \<lparr>title = js ''true'', intro = [], steps = [], optional = [], note' = []\<rparr>"
    by (simp add: buildOut_Inr_iff nullish_def safeString_def stepsOf_def optionalOf_def
          maxOf_def slice0_nonneg js_def)
  have d: "buildOut (JObj [(js ''title'', JObj [(js ''toString'', JBool True)])]) = Inl TypeError"
    by (simp add: buildOut_def getField_def nullish_def safeString_def js_def)
  from a b c d show ?thesis by blast
qed


lemma sample_handler:
  assumes "2500 \<le> t" and "trim c = c"
  shows "fst (handler (sampleWorld t [(c, v)] (JStr c)) (sampleRequest (Some sampleBody)) Map.empty)
         = (case buildOut v of Inl e \<Rightarrow> serverError
            | Inr res \<Rightarrow> \<lparr>status = 200, content = Json res\<rparr>)"
proof -
  have "contentReached (sampleWorld t [(c, v)] (JStr c)) (sampleRequest (Some sampleBody)) Map.empty
          = Some c"
    using sample_reached [OF assms(1), of "[(c, v)]" c] assms(2) by simp
  from handler_reached [OF this]
  have "fst (handler (sampleWorld t [(c, v)] (JStr c)) (sampleRequest (Some sampleBody)) Map.empty)
          = respond (map_of [(c, v)]) c"
    by (simp add: sampleWorld_def)
  moreover have "parseContent (map_of [(c, v)]) c = Inr v"
    by (simp add: parseContent_def)
  ultimately show ?thesis by (simp add: respond_parsed)
qed

lemma trim_braces: "trim (0x7B # s @ [0x7D]) = 0x7B # s @ [0x7D]"
  by (simp add: trim_def isWhite_def)

text \<open>
  C2 (as stated, refuted). An optional entry of 220 characters without the prefix comes
  out 230 characters long, above the 220 of the claim; a title that is malformed
  (\<^verbatim>\<open>true\<close>) is not replaced by the empty string but rendered; and a content that parses
  into an object whose title has an own property \<^verbatim>\<open>toString\<close> is answered with 500, not
  200.
\<close>

theorem response_optional_230:
  \<open>fst (handler
      (sampleWorld 1700000000000
         [(js ''{"optional":["'' @ replicate 220 0x61 @ js ''"]}'',
           JObj [(js ''optional'', JArr [JStr (replicate 220 0x61)])])]
         (JStr (js ''{"optional":["'' @ replicate 220 0x61 @ js ''"]}'')))
      (sampleRequest (Some sampleBody)) Map.empty)
    = \<lparr>status = 200,
       content = Json \<lparr>title = [], intro = [], steps = [],
                       optional = [js ''Optional: '' @ replicate 220 0x61], note' = []\<rparr>\<rparr> \<and>
   length (js ''Optional: '' @ replicate 220 (0x61 :: jschar)) = 230 \<and>
   fst (handler
      (sampleWorld 1700000000000
         [(js ''{"title":true}'', JObj [(js ''title'', JBool True)])]
         (JStr (js ''{"title":true}'')))
      (sampleRequest (Some sampleBody)) Map.empty)
    = \<lparr>status = 200,
       content = Json \<lparr>title = js ''true'', intro = [], steps = [],
                       optional = [], note' = []\<rparr>\<rparr> \<and>
   status (fst (handler
      (sampleWorld 1700000000000
         [(js ''{"title":{"toString":true}}'',
           JObj [(js ''title'', JObj [(js ''toString'', JBool True)])])]
         (JStr (js ''{"title":{"toString":true}}'')))
      (sampleRequest (Some sampleBody)) Map.empty)) = 500\<close>
proof -
  have t1: \<open>trim (js ''{"optional":["'' @ replicate 220 0x61 @ js ''"]}'')
            = js ''{"optional":["'' @ replicate 220 0x61 @ js ''"]}''\<close>
    using trim_braces [of \<open>js ''"optional":["'' @ replicate 220 0x61 @ js ''"]''\<close>]
    by (simp add: js_def)
  have t2: \<open>trim (js ''{"title":true}'') = js ''{"title":true}''\<close>
    using trim_braces [of \<open>js ''"title":true''\<close>] by (simp add: js_def)
  have t3: \<open>trim (js ''{"title":{"toString":true}}'') = js ''{"title":{"toString":true}}''\<close>
    using trim_braces [of \<open>js ''"title":{"toString":true}''\<close>] by (simp add: js_def)
  have le: "(2500::int) \<le> 1700000000000" by simp
  show ?thesis
    unfolding sample_handler [OF le t1] sample_handler [OF le t2] sample_handler [OF le t3]
    using buildOut_samples by simp
qed


lemma safeString_isl: "isl (safeString x m) = isl (toStr x)"
proof (cases "truthy x")
  case True
  then show ?thesis by (cases "toStr x") (simp_all add: safeString_truthy)
next
  case False
  then have "primitive x" by (cases x) simp_all
  with toStr_primitive [of x] False show ?thesis by (auto simp: safeString_falsy)
qed

lemma mapSafe_isl: "isl (mapSafe xs m) = list_ex (\<lambda>x. isl (toStr x)) xs"
proof (induction xs)
  case Nil
  show ?case by simp
next
  case (Cons x xs)
  show ?case
  proof (cases "safeString x (Some m)")
    case (Inl e)
    with safeString_isl [of x "Some m"] show ?thesis by simp
  next
    case (Inr s)
    with safeString_isl [of x "Some m"] have "\<not> isl (toStr x)" by simp
    with Inr Cons.IH show ?thesis by (cases "mapSafe xs m") simp_all
  qed
qed

lemma stepsOf_isl: "isl (stepsOf v) = entryThrows 8 v"
  by (cases v) (simp_all add: stepsOf_def entryThrows_def mapSafe_isl)

lemma optionalOf_isl: "isl (optionalOf v) = entryThrows 5 v"
proof (cases v)
  case (JArr xs)
  then show ?thesis
    using mapSafe_isl [of "take 5 xs" 220]
    by (cases "mapSafe (take 5 xs) 220") (simp_all add: optionalOf_def entryThrows_def)
qed (simp_all add: optionalOf_def entryThrows_def)

lemma buildOut_isl:
  assumes "\<not> nullish v"
  shows "isl (buildOut v) = conversionThrows v"
proof
  assume thrown: "isl (buildOut v)"
  show "conversionThrows v"
  proof (rule ccontr)
    assume no: "\<not> conversionThrows v"
    then obtain t where t: "safeString (ownProp v (js ''title'')) (Some 140) = Inr t"
      using safeString_isl [of "ownProp v (js ''title'')" "Some 140"]
      by (cases "safeString (ownProp v (js ''title'')) (Some 140)") (auto simp: conversionThrows_def)
    from no obtain i where i: "safeString (ownProp v (js ''intro'')) (Some 420) = Inr i"
      using safeString_isl [of "ownProp v (js ''intro'')" "Some 420"]
      by (cases "safeString (ownProp v (js ''intro'')) (Some 420)") (auto simp: conversionThrows_def)
    from no obtain st where st: "stepsOf (ownProp v (js ''steps'')) = Inr st"
      using stepsOf_isl [of "ownProp v (js ''steps'')"]
      by (cases "stepsOf (ownProp v (js ''steps''))") (auto simp: conversionThrows_def)
    from no obtain opt where opt: "optionalOf (ownProp v (js ''optional'')) = Inr opt"
      using optionalOf_isl [of "ownProp v (js ''optional'')"]
      by (cases "optionalOf (ownProp v (js ''optional''))") (auto simp: conversionThrows_def)
    from no obtain n where n: "safeString (ownProp v (js ''note'')) (Some 260) = Inr n"
      using safeString_isl [of "ownProp v (js ''note'')" "Some 260"]
      by (cases "safeString (ownProp v (js ''note'')) (Some 260)") (auto simp: conversionThrows_def)
    have "buildOut v = Inr \<lparr>title = t, intro = i, steps = st, optional = opt, note' = n\<rparr>"
      unfolding buildOut_Inr_iff using assms t i st opt n by simp
    with thrown show False by simp
  qed
next
  assume throws: "conversionThrows v"
  show "isl (buildOut v)"
  proof (cases "buildOut v")
    case (Inl e)
    then show ?thesis by simp
  next
    case (Inr res)
    then have "\<not> isl (safeString (ownProp v (js ''title'')) (Some 140))"
      and "\<not> isl (safeString (ownProp v (js ''intro'')) (Some 420))"
      and "\<not> isl (stepsOf (ownProp v (js ''steps'')))"
      and "\<not> isl (optionalOf (ownProp v (js ''optional'')))"
      and "\<not> isl (safeString (ownProp v (js ''note'')) (Some 260))"
      unfolding buildOut_Inr_iff by simp_all
    with throws show ?thesis
      by (simp add: conversionThrows_def safeString_isl stepsOf_isl optionalOf_isl)
  qed
qed

text \<open>
  C2 (amended). For every provider content that the handler parses into an object: when
  the string conversion of a field throws, the response is the generic 500; otherwise it
  is 200 with a body of exactly the five fields, as the sanitization builds them: title
  of at most 140 characters, intro of at most 420, note of at most 260, at most 8 steps
  of at most 220 characters each, at most 5 optional entries of at most 230 characters
  each (220 and the prefix), every one beginning with \<^verbatim>\<open>Optional:\<close>. title, intro and
  note are the empty string when the source field is absent or otherwise falsy, steps and
  optional are empty when the source field is absent or not an array. No conversion
  throws, and the response is 200, whenever the five source fields are primitives or
  arrays of primitives.
\<close>

theorem response_schema:
  assumes "contentReached w req r = Some content0"
    and "parseContent (jsonParse w) content0 = Inr (JObj kvs)"
  shows
    "(conversionThrows (JObj kvs) \<longrightarrow>
        fst (handler w req r) = serverError \<and> status (fst (handler w req r)) = 500) \<and>
     (\<not> conversionThrows (JObj kvs) \<longrightarrow>
        (\<exists>res. buildOut (JObj kvs) = Inr res \<and>
           fst (handler w req r) = \<lparr>status = 200, content = Json res\<rparr> \<and>
           length (title res) \<le> 140 \<and> length (intro res) \<le> 420 \<and> length (note' res) \<le> 260 \<and>
           length (steps res) \<le> 8 \<and> (\<forall>s\<in>set (steps res). length s \<le> 220) \<and>
           length (optional res) \<le> 5 \<and>
           (\<forall>s\<in>set (optional res). length s \<le> 230 \<and> startsWith s (js ''Optional:'')) \<and>
           (\<not> truthy (ownProp (JObj kvs) (js ''title'')) \<longrightarrow> title res = []) \<and>
           (\<not> truthy (ownProp (JObj kvs) (js ''intro'')) \<longrightarrow> intro res = []) \<and>
           (\<not> truthy (ownProp (JObj kvs) (js ''note'')) \<longrightarrow> note' res = []) \<and>
           ((\<forall>xs. ownProp (JObj kvs) (js ''steps'') \<noteq> JArr xs) \<longrightarrow> steps res = []) \<and>
           ((\<forall>xs. ownProp (JObj kvs) (js ''optional'') \<noteq> JArr xs) \<longrightarrow> optional res = []))) \<and>
     (\<forall>k. map_of kvs k = None \<longrightarrow> ownProp (JObj kvs) k = JUndefined) \<and>
     (list_all (\<lambda>k. plainValue (ownProp (JObj kvs) (js k)))
        [''title'', ''intro'', ''steps'', ''optional'', ''note'']
        \<longrightarrow> \<not> conversionThrows (JObj kvs) \<and> status (fst (handler w req r)) = 200)"
proof -
  have resp: "fst (handler w req r) =
      (case buildOut (JObj kvs) of Inl e \<Rightarrow> serverError
       | Inr res \<Rightarrow> \<lparr>status = 200, content = Json res\<rparr>)"
    using handler_reached [OF assms(1)] respond_parsed [OF assms(2)] by simp
  have thr: "isl (buildOut (JObj kvs)) = conversionThrows (JObj kvs)"
    by (rule buildOut_isl) (simp add: nullish_def)
  have first: "conversionThrows (JObj kvs) \<longrightarrow>
        fst (handler w req r) = serverError \<and> status (fst (handler w req r)) = 500"
    using resp thr by (cases "buildOut (JObj kvs)") simp_all
  have second: "\<not> conversionThrows (JObj kvs) \<longrightarrow>
        (\<exists>res. buildOut (JObj kvs) = Inr res \<and>
           fst (handler w req r) = \<lparr>status = 200, content = Json res\<rparr> \<and>
           length (title res) \<le> 140 \<and> length (intro res) \<le> 420 \<and> length (note' res) \<le> 260 \<and>
           length (steps res) \<le> 8 \<and> (\<forall>s\<in>set (steps res). length s \<le> 220) \<and>
           length (optional res) \<le> 5 \<and>
           (\<forall>s\<in>set (optional res). length s \<le> 230 \<and> startsWith s (js ''Optional:'')) \<and>
           (\<not> truthy (ownProp (JObj kvs) (js ''title'')) \<longrightarrow> title res = []) \<and>
           (\<not> truthy (ownProp (JObj kvs) (js ''intro'')) \<longrightarrow> intro res = []) \<and>
           (\<not> truthy (ownProp (JObj kvs) (js ''note'')) \<longrightarrow> note' res = []) \<and>
           ((\<forall>xs. ownProp (JObj kvs) (js ''steps'') \<noteq> JArr xs) \<longrightarrow> steps res = []) \<and>
           ((\<forall>xs. ownProp (JObj kvs) (js ''optional'') \<noteq> JArr xs) \<longrightarrow> optional res = []))"
  proof
    assume "\<not> conversionThrows (JObj kvs)"
    with thr obtain res where Inr: "buildOut (JObj kvs) = Inr res"
      by (cases "buildOut (JObj kvs)") simp_all
    then have t: "safeString (ownProp (JObj kvs) (js ''title'')) (Some 140) = Inr (title res)"
      and i: "safeString (ownProp (JObj kvs) (js ''intro'')) (Some 420) = Inr (intro res)"
      and st: "stepsOf (ownProp (JObj kvs) (js ''steps'')) = Inr (steps res)"
      and opt: "optionalOf (ownProp (JObj kvs) (js ''optional'')) = Inr (optional res)"
      and n: "safeString (ownProp (JObj kvs) (js ''note'')) (Some 260) = Inr (note' res)"
      unfolding buildOut_Inr_iff by blast+
    have "length (title res) \<le> 140" using safeString_length [OF t] by simp
    moreover have "length (intro res) \<le> 420" using safeString_length [OF i] by simp
    moreover have "length (note' res) \<le> 260" using safeString_length [OF n] by simp
    moreover note stepsOf_bounds [OF st] optionalOf_bounds [OF opt]
    moreover have "\<not> truthy (ownProp (JObj kvs) (js ''title'')) \<longrightarrow> title res = []"
      using t by (auto simp: safeString_falsy)
    moreover have "\<not> truthy (ownProp (JObj kvs) (js ''intro'')) \<longrightarrow> intro res = []"
      using i by (auto simp: safeString_falsy)
    moreover have "\<not> truthy (ownProp (JObj kvs) (js ''note'')) \<longrightarrow> note' res = []"
      using n by (auto simp: safeString_falsy)
    moreover have "(\<forall>xs. ownProp (JObj kvs) (js ''steps'') \<noteq> JArr xs) \<longrightarrow> steps res = []"
      using st stepsOf_not_array [of "ownProp (JObj kvs) (js ''steps'')"] by auto
    moreover have "(\<forall>xs. ownProp (JObj kvs) (js ''optional'') \<noteq> JArr xs) \<longrightarrow> optional res = []"
      using opt optionalOf_not_array [of "ownProp (JObj kvs) (js ''optional'')"] by auto
    moreover have "fst (handler w req r) = \<lparr>status = 200, content = Json res\<rparr>"
      using resp Inr by simp
    ultimately show "\<exists>res. buildOut (JObj kvs) = Inr res \<and>
           fst (handler w req r) = \<lparr>status = 200, content = Json res\<rparr> \<and>
           length (title res) \<le> 140 \<and> length (intro res) \<le> 420 \<and> length (note' res) \<le> 260 \<and>
           length (steps res) \<le> 8 \<and> (\<forall>s\<in>set (steps res). length s \<le> 220) \<and>
           length (optional res) \<le> 5 \<and>
           (\<forall>s\<in>set (optional res). length s \<le> 230 \<and> startsWith s (js ''Optional:'')) \<and>
           (\<not> truthy (ownProp (JObj kvs) (js ''title'')) \<longrightarrow> title res = []) \<and>
           (\<not> truthy (ownProp (JObj kvs) (js ''intro'')) \<longrightarrow> intro res = []) \<and>
           (\<not> truthy (ownProp (JObj kvs) (js ''note'')) \<longrightarrow> note' res = []) \<and>
           ((\<forall>xs. ownProp (JObj kvs) (js ''steps'') \<noteq> JArr xs) \<longrightarrow> steps res = []) \<and>
           ((\<forall>xs. ownProp (JObj kvs) (js ''optional'') \<noteq> JArr xs) \<longrightarrow> optional res = [])"
      using Inr by blast
  qed
  have third: "\<forall>k. map_of kvs k = None \<longrightarrow> ownProp (JObj kvs) k = JUndefined"
    by simp
  have fourth: "list_all (\<lambda>k. plainValue (ownProp (JObj kvs) (js k)))
        [''title'', ''intro'', ''steps'', ''optional'', ''note'']
        \<longrightarrow> \<not> conversionThrows (JObj kvs) \<and> status (fst (handler w req r)) = 200"
  proof
    assume "list_all (\<lambda>k. plainValue (ownProp (JObj kvs) (js k)))
        [''title'', ''intro'', ''steps'', ''optional'', ''note'']"
    then have "\<exists>res. buildOut (JObj kvs) = Inr res"
      by (intro buildOut_plain) (simp_all add: nullish_def)
    with resp thr show "\<not> conversionThrows (JObj kvs) \<and> status (fst (handler w req r)) = 200"
      by auto
  qed
  from first second third fourth show ?thesis by blast
qed

theorem response_schema_witness:
  \<open>fst (handler
      (sampleWorld 1700000000000
         [(js ''{"title":"Spinach Rice Skillet","intro":"A quick one-pan dish.","steps":["Heat oil in a pan until shimmering","Add rice and spinach, stir until spinach wilts"],"optional":["garlic if you have it"],"note":"Balance with salt to taste."}'',
           JObj [(js ''title'', JStr (js ''Spinach Rice Skillet'')),
                 (js ''intro'', JStr (js ''A quick one-pan dish.'')),
                 (js ''steps'', JArr [JStr (js ''Heat oil in a pan until shimmering''),
                                      JStr (js ''Add rice and spinach, stir until spinach wilts'')]),
                 (js ''optional'', JArr [JStr (js ''garlic if you have it'')]),
                 (js ''note'', JStr (js ''Balance with salt to taste.''))])]
         (JStr (js ''{"title":"Spinach Rice Skillet","intro":"A quick one-pan dish.","steps":["Heat oil in a pan until shimmering","Add rice and spinach, stir until spinach wilts"],"optional":["garlic if you have it"],"note":"Balance with salt to taste."}'')))
      (sampleRequest (Some sampleBody)) Map.empty)
    = \<lparr>status = 200,
       content = Json \<lparr>title = js ''Spinach Rice Skillet'',
                       intro = js ''A quick one-pan dish.'',
                       steps = [js ''Heat oil in a pan until shimmering'',
                                js ''Add rice and spinach, stir until spinach wilts''],
                       optional = [js ''Optional: garlic if you have it''],
                       note' = js ''Balance with salt to taste.''\<rparr>\<rparr> \<and>
   conversionThrows (JObj [(js ''title'', JObj [(js ''toString'', JBool True)])]) \<and>
   fst (handler
      (sampleWorld 1700000000000
         [(js ''{"title":{"toString":true}}'',
           JObj [(js ''title'', JObj [(js ''toString'', JBool True)])])]
         (JStr (js ''{"title":{"toString":true}}'')))
      (sampleRequest (Some sampleBody)) Map.empty)
    = plain 500 ''Server error''\<close>
proof -
  define cont where \<open>cont = js ''{"title":"Spinach Rice Skillet","intro":"A quick one-pan dish.","steps":["Heat oil in a pan until shimmering","Add rice and spinach, stir until spinach wilts"],"optional":["garlic if you have it"],"note":"Balance with salt to taste."}''\<close>
  define kvs where "kvs = [(js ''title'', JStr (js ''Spinach Rice Skillet'')),
                 (js ''intro'', JStr (js ''A quick one-pan dish.'')),
                 (js ''steps'', JArr [JStr (js ''Heat oil in a pan until shimmering''),
                                      JStr (js ''Add rice and spinach, stir until spinach wilts'')]),
                 (js ''optional'', JArr [JStr (js ''garlic if you have it'')]),
                 (js ''note'', JStr (js ''Balance with salt to taste.''))]"
  have tr: "trim cont = cont"
    unfolding cont_def by (simp add: trim_def isWhite_def js_def)
  have reach: "contentReached (sampleWorld 1700000000000 [(cont, JObj kvs)] (JStr cont))
                 (sampleRequest (Some sampleBody)) Map.empty = Some cont"
    using sample_reached [of 1700000000000 "[(cont, JObj kvs)]" cont] tr by simp
  have parsed: "parseContent (jsonParse (sampleWorld 1700000000000 [(cont, JObj kvs)] (JStr cont))) cont
                  = Inr (JObj kvs)"
    by (simp add: parseContent_def sampleWorld_def)
  have plain: "list_all (\<lambda>k. plainValue (ownProp (JObj kvs) (js k)))
        [''title'', ''intro'', ''steps'', ''optional'', ''note'']"
    by (simp add: kvs_def js_def)
  have out: "buildOut (JObj kvs) = Inr \<lparr>title = js ''Spinach Rice Skillet'',
                       intro = js ''A quick one-pan dish.'',
                       steps = [js ''Heat oil in a pan until shimmering'',
                                js ''Add rice and spinach, stir until spinach wilts''],
                       optional = [js ''Optional: garlic if you have it''],
                       note' = js ''Balance with salt to taste.''\<rparr>"
    by (simp add: buildOut_Inr_iff kvs_def nullish_def stepsOf_def optionalOf_def
          safeString_Str maxOf_def slice0_nonneg addPrefix_def startsWith_def js_def)
  have "\<not> conversionThrows (JObj kvs)"
    using response_schema [OF reach parsed, THEN conjunct2, THEN conjunct2, THEN conjunct2] plain
    by simp
  with response_schema [OF reach parsed, THEN conjunct2, THEN conjunct1] out
  have good: "fst (handler (sampleWorld 1700000000000 [(cont, JObj kvs)] (JStr cont))
                 (sampleRequest (Some sampleBody)) Map.empty)
      = \<lparr>status = 200,
         content = Json \<lparr>title = js ''Spinach Rice Skillet'',
                       intro = js ''A quick one-pan dish.'',
                       steps = [js ''Heat oil in a pan until shimmering'',
                                js ''Add rice and spinach, stir until spinach wilts''],
                       optional = [js ''Optional: garlic if you have it''],
                       note' = js ''Balance with salt to taste.''\<rparr>\<rparr>"
    by auto
  define bad where \<open>bad = js ''{"title":{"toString":true}}''\<close>
  define badv where "badv = [(js ''title'', JObj [(js ''toString'', JBool True)])]"
  have tr': "trim bad = bad"
    unfolding bad_def by (simp add: trim_def isWhite_def js_def)
  have reach': "contentReached (sampleWorld 1700000000000 [(bad, JObj badv)] (JStr bad))
                 (sampleRequest (Some sampleBody)) Map.empty = Some bad"
    using sample_reached [of 1700000000000 "[(bad, JObj badv)]" bad] tr' by simp
  have parsed': "parseContent (jsonParse (sampleWorld 1700000000000 [(bad, JObj badv)] (JStr bad))) bad
                  = Inr (JObj badv)"
    by (simp add: parseContent_def sampleWorld_def)
  have throws: "conversionThrows (JObj badv)"
    by (simp add: conversionThrows_def badv_def js_def)
  with response_schema [OF reach' parsed', THEN conjunct1]
  have "fst (handler (sampleWorld 1700000000000 [(bad, JObj badv)] (JStr bad))
                 (sampleRequest (Some sampleBody)) Map.empty) = plain 500 ''Server error''"
    by (simp add: serverError_def)
  with good throws show ?thesis
    unfolding cont_def kvs_def bad_def badv_def by simp
qed

section \<open>Sanitizing twice\<close>

lemma ownProp_outValue:
  "ownProp (outValue res) (js ''title'') = JStr (title res)"
  "ownProp (outValue res) (js ''intro'') = JStr (intro res)"
  "ownProp (outValue res) (js ''steps'') = JArr (map JStr (steps res))"
  "ownProp (outValue res) (js ''optional'') = JArr (map JStr (optional res))"
  "ownProp (outValue res) (js ''note'') = JStr (note' res)"
  by (simp_all add: outValue_def js_def)

lemma safeString_Str_short:
  "length s \<le> nat m \<Longrightarrow> 0 \<le> m \<Longrightarrow> safeString (JStr s) (Some m) = Inr s"
  by (simp add: safeString_Str maxOf_def slice0_nonneg)

lemma stepsOf_strings:
  "length ss \<le> 8 \<Longrightarrow> \<forall>s\<in>set ss. length s \<le> 220 \<Longrightarrow> stepsOf (JArr (map JStr ss)) = Inr ss"
  by (simp add: stepsOf_def take_map [symmetric] mapSafe_Str slice0_nonneg map_idI)

lemma addPrefix_prefixed: "startsWith s (js ''Optional:'') \<Longrightarrow> addPrefix (take 220 s) = take 220 s"
  by (simp add: addPrefix_def startsWith_take)

lemma optionalOf_strings:
  assumes "length os \<le> 5" and "\<forall>s\<in>set os. startsWith s (js ''Optional:'')"
  shows "optionalOf (JArr (map JStr os)) = Inr (map (take 220) os)"
proof -
  have "mapSafe (take 5 (map JStr os)) 220 = Inr (map (take 220) os)"
    using assms(1) by (simp add: take_map [symmetric] mapSafe_Str slice0_nonneg)
  moreover have "map addPrefix (map (take 220) os) = map (take 220) os"
    using assms(2) by (simp add: addPrefix_prefixed)
  ultimately show ?thesis by (simp add: optionalOf_def)
qed

lemma buildOut_again:
  assumes "buildOut v = Inr res"
  shows "buildOut (outValue res) = Inr (res\<lparr>optional := map (take 220) (optional res)\<rparr>)"
proof -
  from assms have t: "safeString (ownProp v (js ''title'')) (Some 140) = Inr (title res)"
    and i: "safeString (ownProp v (js ''intro'')) (Some 420) = Inr (intro res)"
    and st: "stepsOf (ownProp v (js ''steps'')) = Inr (steps res)"
    and opt: "optionalOf (ownProp v (js ''optional'')) = Inr (optional res)"
    and n: "safeString (ownProp v (js ''note'')) (Some 260) = Inr (note' res)"
    unfolding buildOut_Inr_iff by blast+
  have "safeString (JStr (title res)) (Some 140) = Inr (title res)"
    using safeString_length [OF t] by (intro safeString_Str_short) simp_all
  moreover have "safeString (JStr (intro res)) (Some 420) = Inr (intro res)"
    using safeString_length [OF i] by (intro safeString_Str_short) simp_all
  moreover have "safeString (JStr (note' res)) (Some 260) = Inr (note' res)"
    using safeString_length [OF n] by (intro safeString_Str_short) simp_all
  moreover have "stepsOf (JArr (map JStr (steps res))) = Inr (steps res)"
    using stepsOf_bounds [OF st] by (intro stepsOf_strings) simp_all
  moreover have "optionalOf (JArr (map JStr (optional res))) = Inr (map (take 220) (optional res))"
    using optionalOf_bounds [OF opt] by (intro optionalOf_strings) simp_all
  moreover have "\<not> nullish (outValue res)"
    by (simp add: nullish_def outValue_def)
  ultimately show ?thesis
    unfolding buildOut_Inr_iff ownProp_outValue by simp
qed

text \<open>
  C7 (as stated, refuted). The object produced from an optional entry of 220 characters
  without the prefix holds an entry of 230 characters; sanitizing that object again cuts
  the entry to 220 and so yields a different object.
\<close>

theorem sanitize_twice_differs:
  "buildOut (JObj [(js ''optional'', JArr [JStr (replicate 220 0x61)])])
     = Inr \<lparr>title = [], intro = [], steps = [],
            optional = [js ''Optional: '' @ replicate 220 0x61], note' = []\<rparr> \<and>
   buildOut (outValue \<lparr>title = [], intro = [], steps = [],
            optional = [js ''Optional: '' @ replicate 220 0x61], note' = []\<rparr>)
     = Inr \<lparr>title = [], intro = [], steps = [],
            optional = [js ''Optional: '' @ replicate 210 0x61], note' = []\<rparr> \<and>
   buildOut (outValue \<lparr>title = [], intro = [], steps = [],
            optional = [js ''Optional: '' @ replicate 220 0x61], note' = []\<rparr>)
     \<noteq> Inr \<lparr>title = [], intro = [], steps = [],
            optional = [js ''Optional: '' @ replicate 220 0x61], note' = []\<rparr>"
proof -
  have a: "buildOut (JObj [(js ''optional'', JArr [JStr (replicate 220 0x61)])])
     = Inr \<lparr>title = [], intro = [], steps = [],
            optional = [js ''Optional: '' @ replicate 220 0x61], note' = []\<rparr>"
    using buildOut_samples by blast
  have b: "buildOut (outValue \<lparr>title = [], intro = [], steps = [],
            optional = [js ''Optional: '' @ replicate 220 0x61], note' = []\<rparr>)
     = Inr \<lparr>title = [], intro = [], steps = [],
            optional = [js ''Optional: '' @ replicate 210 0x61], note' = []\<rparr>"
    unfolding buildOut_again [OF a] by (simp add: js_def)
  have "length (js ''Optional: '' @ replicate 210 (0x61 :: jschar))
          \<noteq> length (js ''Optional: '' @ replicate 220 (0x61 :: jschar))"
    by (simp add: js_def)
  then have c: "js ''Optional: '' @ replicate 210 (0x61 :: jschar)
          \<noteq> js ''Optional: '' @ replicate 220 (0x61 :: jschar)"
    by metis
  from a b c show ?thesis by simp
qed

text \<open>
  C7 (amended). Applying the sanitization to an object it has produced leaves title,
  intro, steps and note as they are and adds no prefix, but cuts every optional entry to
  its first 220 characters. The object is therefore reproduced exactly when each of its
  optional entries is at most 220 characters long (an entry that received the prefix can
  be up to 230 long), and what the second application yields is reproduced by every
  further one.
\<close>

theorem sanitize_again:
  assumes "buildOut v = Inr res"
  shows "buildOut (outValue res) = Inr (res\<lparr>optional := map (take 220) (optional res)\<rparr>) \<and>
         ((\<forall>s\<in>set (optional res). length s \<le> 220) \<longrightarrow> buildOut (outValue res) = Inr res) \<and>
         (\<forall>res'. buildOut (outValue res) = Inr res' \<longrightarrow> buildOut (outValue res') = Inr res')"
proof -
  note again = buildOut_again [OF assms]
  have short: "buildOut (outValue res) = Inr res" if "\<forall>s\<in>set (optional res). length s \<le> 220"
  proof -
    from that have "map (take 220) (optional res) = optional res"
      by (simp add: map_idI)
    with again show ?thesis by simp
  qed
  have "buildOut (outValue res') = Inr res'" if r': "buildOut (outValue res) = Inr res'" for res'
  proof -
    from r' again have "res' = res\<lparr>optional := map (take 220) (optional res)\<rparr>" by simp
    then have "map (take 220) (optional res') = optional res'" by simp
    with buildOut_again [OF r'] show ?thesis by simp
  qed
  with again short show ?thesis by blast
qed

theorem sanitize_again_witness:
  "buildOut (JObj [(js ''optional'', JArr [JStr (js ''garlic'')])])
     = Inr \<lparr>title = [], intro = [], steps = [],
            optional = [js ''Optional: garlic''], note' = []\<rparr> \<and>
   buildOut (outValue \<lparr>title = [], intro = [], steps = [],
            optional = [js ''Optional: garlic''], note' = []\<rparr>)
     = Inr \<lparr>title = [], intro = [], steps = [],
            optional = [js ''Optional: garlic''], note' = []\<rparr>"
proof -
  have a: "buildOut (JObj [(js ''optional'', JArr [JStr (js ''garlic'')])])
     = Inr \<lparr>title = [], intro = [], steps = [],
            optional = [js ''Optional: garlic''], note' = []\<rparr>"
    by (simp add: buildOut_Inr_iff nullish_def safeString_falsy stepsOf_def optionalOf_def
          safeString_Str maxOf_def slice0_nonneg addPrefix_def startsWith_def js_def)
  from sanitize_again [OF a] a show ?thesis by (simp add: js_def)
qed

section \<open>The fallback extraction\<close>

lemma fallbackMatch_here: "matchesHere s \<Longrightarrow> fallbackMatch s = Some s"
  by (cases s) (simp_all add: matchesHere_def)

lemma fallbackMatch_skip:
  "0x7B \<notin> set pre \<Longrightarrow> fallbackMatch (pre @ s) = fallbackMatch s"
  by (induction pre) (simp_all add: matchesHere_def)

lemma fallbackMatch_prefixed:
  "0x7B \<notin> set pre \<Longrightarrow> matchesHere obj \<Longrightarrow> fallbackMatch (pre @ obj) = Some obj"
  by (simp add: fallbackMatch_skip fallbackMatch_here)

lemma respond_failed:
  assumes "parse t = None" and "\<forall>m. fallbackMatch t = Some m \<longrightarrow> parse m = None"
  shows "respond parse t = serverError"
  using assms by (simp add: respond_def parseContent_def split: option.splits)

lemma sample_respond:
  assumes "2500 \<le> t"
  shows "fst (handler (sampleWorld t table (JStr c)) (sampleRequest (Some sampleBody)) Map.empty)
         = respond (map_of table) (trim c)"
  using handler_reached [OF sample_reached [OF assms, of table c]]
  by (simp add: sampleWorld_def)

text \<open>
  C3 (as stated, refuted). The content below is not valid JSON and ends with a
  well-formed JSON object, but the text in front of the object holds an opening brace: the
  extraction starts at that brace, the extracted text does not parse, and the handler
  answers 500 instead of sanitizing the trailing object. \<^verbatim>\<open>JSON.parse\<close> is given by its
  values on the strings involved: it accepts the trailing object and throws on the whole
  content and on the extracted text.
\<close>

theorem fallback_misses_trailing_object:
  \<open>contentReached
      (sampleWorld 1700000000000
         [(js ''{"title":"T"}'', JObj [(js ''title'', JStr (js ''T''))])]
         (JStr (js ''Use {any} oil: {"title":"T"}'')))
      (sampleRequest (Some sampleBody)) Map.empty
     = Some (js ''Use {any} oil: '' @ js ''{"title":"T"}'') \<and>
   map_of [(js ''{"title":"T"}'', JObj [(js ''title'', JStr (js ''T''))])]
      (js ''Use {any} oil: '' @ js ''{"title":"T"}'') = None \<and>
   map_of [(js ''{"title":"T"}'', JObj [(js ''title'', JStr (js ''T''))])]
      (js ''{"title":"T"}'') = Some (JObj [(js ''title'', JStr (js ''T''))]) \<and>
   fallbackMatch (js ''Use {any} oil: '' @ js ''{"title":"T"}'')
     = Some (js ''{any} oil: {"title":"T"}'') \<and>
   fst (handler
      (sampleWorld 1700000000000
         [(js ''{"title":"T"}'', JObj [(js ''title'', JStr (js ''T''))])]
         (JStr (js ''Use {any} oil: {"title":"T"}'')))
      (sampleRequest (Some sampleBody)) Map.empty)
     = serverError\<close>
proof -
  have le: "(2500::int) \<le> 1700000000000" by simp
  have tr: \<open>trim (js ''Use {any} oil: {"title":"T"}'') = js ''Use {any} oil: '' @ js ''{"title":"T"}''\<close>
    by (simp add: trim_def isWhite_def js_def)
  have m: \<open>fallbackMatch (js ''Use {any} oil: '' @ js ''{"title":"T"}'')
     = Some (js ''{any} oil: {"title":"T"}'')\<close>
    by (simp add: js_def matchesHere_def)
  have r: \<open>respond (map_of [(js ''{"title":"T"}'', JObj [(js ''title'', JStr (js ''T''))])])
             (js ''Use {any} oil: '' @ js ''{"title":"T"}'') = serverError\<close>
    by (rule respond_failed) (simp_all add: m, simp_all add: js_def)
  have p: \<open>map_of [(js ''{"title":"T"}'', JObj [(js ''title'', JStr (js ''T''))])]
      (js ''Use {any} oil: '' @ js ''{"title":"T"}'') = None\<close>
    by (simp add: js_def)
  show ?thesis
    using sample_reached [OF le] sample_respond [OF le] tr m r p by simp
qed

lemma fallbackMatch_eq:
  "fallbackMatch t =
     (if 0x7B \<in> set t \<and> last t = 0x7D then Some (dropWhile (\<lambda>c. c \<noteq> 0x7B) t) else None)"
proof (induction t)
  case Nil
  show ?case by simp
next
  case (Cons c rest)
  show ?case
  proof (cases "matchesHere (c # rest)")
    case True
    then show ?thesis by (simp add: matchesHere_def)
  next
    case False
    note no = False
    show ?thesis
    proof (cases "c = 0x7B")
      case True
      with no have "rest = [] \<or> last rest \<noteq> 0x7D"
        by (auto simp: matchesHere_def)
      with True no Cons.IH show ?thesis by auto
    next
      case False
      with no Cons.IH show ?thesis by (cases "rest = []") simp_all
    qed
  qed
qed

lemma respond_fallback:
  assumes "parse t = None"
  shows "respond parse t =
           (case fallbackMatch t of
              None \<Rightarrow> serverError
            | Some m \<Rightarrow>
                (case parse m of
                   None \<Rightarrow> serverError
                 | Some v \<Rightarrow>
                     (case buildOut v of
                        Inl e \<Rightarrow> serverError
                      | Inr res \<Rightarrow> \<lparr>status = 200, content = Json res\<rparr>)))"
  using assms by (simp add: respond_def parseContent_def split: option.splits)

text \<open>
  C3 (amended). For every provider content that is not itself valid JSON, the fallback
  extracts the text from the first opening brace to the end of the content when the
  content holds an opening brace and ends with a closing brace, and nothing otherwise.
  So when the content consists of a text without an opening brace followed by a text
  that begins with an opening brace and ends with a closing brace, the extraction yields
  exactly that trailing text, and if it is a well-formed JSON object the handler goes on
  to sanitize the value it parses to. Whenever the fallback fails too, because nothing is
  extracted or because the extracted text does not parse, the handler answers with the
  generic 500.
\<close>

theorem fallback_recovers:
  assumes "contentReached w req r = Some content0"
    and "jsonParse w content0 = None"
  shows "fst (handler w req r) =
           (case fallbackMatch content0 of
              None \<Rightarrow> serverError
            | Some m \<Rightarrow>
                (case jsonParse w m of
                   None \<Rightarrow> serverError
                 | Some v \<Rightarrow>
                     (case buildOut v of
                        Inl e \<Rightarrow> serverError
                      | Inr res \<Rightarrow> \<lparr>status = 200, content = Json res\<rparr>))) \<and>
         fallbackMatch content0 =
           (if 0x7B \<in> set content0 \<and> last content0 = 0x7D
            then Some (dropWhile (\<lambda>c. c \<noteq> 0x7B) content0) else None) \<and>
         (\<forall>pre obj. content0 = pre @ obj \<and> 0x7B \<notin> set pre \<and> matchesHere obj \<longrightarrow>
            fallbackMatch content0 = Some obj \<and>
            (\<forall>v. jsonParse w obj = Some v \<longrightarrow>
               parseContent (jsonParse w) content0 = Inr v \<and>
               fst (handler w req r) =
                 (case buildOut v of Inl e \<Rightarrow> serverError
                  | Inr res \<Rightarrow> \<lparr>status = 200, content = Json res\<rparr>))) \<and>
         (fallbackMatch content0 = None \<longrightarrow> fst (handler w req r) = serverError) \<and>
         (\<forall>m. fallbackMatch content0 = Some m \<and> jsonParse w m = None \<longrightarrow>
            fst (handler w req r) = serverError) \<and>
         status serverError = 500"
proof -
  have h: "fst (handler w req r) = respond (jsonParse w) content0"
    by (rule handler_reached [OF assms(1)])
  have eq: "fst (handler w req r) =
           (case fallbackMatch content0 of
              None \<Rightarrow> serverError
            | Some m \<Rightarrow>
                (case jsonParse w m of
                   None \<Rightarrow> serverError
                 | Some v \<Rightarrow>
                     (case buildOut v of
                        Inl e \<Rightarrow> serverError
                      | Inr res \<Rightarrow> \<lparr>status = 200, content = Json res\<rparr>)))"
    unfolding h by (rule respond_fallback [of "jsonParse w" content0, OF assms(2)])
  have rec: "fallbackMatch content0 = Some obj \<and>
            (\<forall>v. jsonParse w obj = Some v \<longrightarrow>
               parseContent (jsonParse w) content0 = Inr v \<and>
               fst (handler w req r) =
                 (case buildOut v of Inl e \<Rightarrow> serverError
                  | Inr res \<Rightarrow> \<lparr>status = 200, content = Json res\<rparr>))"
    if split: "content0 = pre @ obj" and pre: "0x7B \<notin> set pre" and obj: "matchesHere obj"
    for pre obj
  proof -
    have m: "fallbackMatch content0 = Some obj"
      using split pre obj by (simp add: fallbackMatch_prefixed)
    have "parseContent (jsonParse w) content0 = Inr v \<and>
            fst (handler w req r) =
              (case buildOut v of Inl e \<Rightarrow> serverError
               | Inr res \<Rightarrow> \<lparr>status = 200, content = Json res\<rparr>)"
      if v: "jsonParse w obj = Some v" for v
    proof -
      have "parseContent (jsonParse w) content0 = Inr v"
        using assms(2) m v by (simp add: parseContent_def)
      with h respond_parsed [OF this] show ?thesis by simp
    qed
    with m show ?thesis by blast
  qed
  have none: "fallbackMatch content0 = None \<longrightarrow> fst (handler w req r) = serverError"
    using eq by simp
  have bad: "\<forall>m. fallbackMatch content0 = Some m \<and> jsonParse w m = None \<longrightarrow>
            fst (handler w req r) = serverError"
    using eq by simp
  have all: "\<forall>pre obj. content0 = pre @ obj \<and> 0x7B \<notin> set pre \<and> matchesHere obj \<longrightarrow>
            fallbackMatch content0 = Some obj \<and>
            (\<forall>v. jsonParse w obj = Some v \<longrightarrow>
               parseContent (jsonParse w) content0 = Inr v \<and>
               fst (handler w req r) =
                 (case buildOut v of Inl e \<Rightarrow> serverError
                  | Inr res \<Rightarrow> \<lparr>status = 200, content = Json res\<rparr>))"
    using rec by (intro allI impI) (elim conjE)
  show ?thesis
    by (intro conjI) (rule eq, rule fallbackMatch_eq, rule all, rule none, rule bad,
      rule status_serverError)
qed

theorem fallback_recovers_witness:
  \<open>fallbackMatch (js ''Here you go: '' @ js ''{"title":"T"}'') = Some (js ''{"title":"T"}'') \<and>
   fst (handler
      (sampleWorld 1700000000000
         [(js ''{"title":"T"}'', JObj [(js ''title'', JStr (js ''T''))])]
         (JStr (js ''Here you go: {"title":"T"}'')))
      (sampleRequest (Some sampleBody)) Map.empty)
     = \<lparr>status = 200,
        content = Json \<lparr>title = js ''T'', intro = [], steps = [], optional = [], note' = []\<rparr>\<rparr> \<and>
   fallbackMatch (js ''Sorry, no recipe today.'') = None \<and>
   fst (handler
      (sampleWorld 1700000000000 [] (JStr (js ''Sorry, no recipe today.'')))
      (sampleRequest (Some sampleBody)) Map.empty)
     = plain 500 ''Server error''\<close>
proof -
  define w where \<open>w = sampleWorld 1700000000000
         [(js ''{"title":"T"}'', JObj [(js ''title'', JStr (js ''T''))])]
         (JStr (js ''Here you go: {"title":"T"}''))\<close>
  define w2 where \<open>w2 = sampleWorld 1700000000000 [] (JStr (js ''Sorry, no recipe today.''))\<close>
  have le: "(2500::int) \<le> 1700000000000" by simp
  have tr: \<open>trim (js ''Here you go: {"title":"T"}'') = js ''Here you go: '' @ js ''{"title":"T"}''\<close>
    by (simp add: trim_def isWhite_def js_def)
  have reach: \<open>contentReached w (sampleRequest (Some sampleBody)) Map.empty
      = Some (js ''Here you go: '' @ js ''{"title":"T"}'')\<close>
    unfolding w_def using sample_reached [OF le] tr by simp
  have direct: \<open>jsonParse w (js ''Here you go: '' @ js ''{"title":"T"}'') = None\<close>
    by (simp add: w_def sampleWorld_def js_def)
  have pre: \<open>0x7B \<notin> set (js ''Here you go: '')\<close>
    by (simp add: js_def)
  have obj: \<open>matchesHere (js ''{"title":"T"}'')\<close>
    by (simp add: matchesHere_def js_def)
  have parsed: \<open>jsonParse w (js ''{"title":"T"}'') = Some (JObj [(js ''title'', JStr (js ''T''))])\<close>
    by (simp add: w_def sampleWorld_def)
  have out: "buildOut (JObj [(js ''title'', JStr (js ''T''))])
      = Inr \<lparr>title = js ''T'', intro = [], steps = [], optional = [], note' = []\<rparr>"
    by (simp add: buildOut_Inr_iff nullish_def safeString_falsy stepsOf_def optionalOf_def
          safeString_Str maxOf_def slice0_nonneg js_def)
  have first: \<open>fallbackMatch (js ''Here you go: '' @ js ''{"title":"T"}'') = Some (js ''{"title":"T"}'') \<and>
     fst (handler w (sampleRequest (Some sampleBody)) Map.empty)
       = \<lparr>status = 200,
          content = Json \<lparr>title = js ''T'', intro = [], steps = [], optional = [], note' = []\<rparr>\<rparr>\<close>
  proof -
    note rec = fallback_recovers [OF reach direct, THEN conjunct2, THEN conjunct2,
      THEN conjunct1, rule_format]
    have \<open>js ''Here you go: '' @ js ''{"title":"T"}'' = js ''Here you go: '' @ js ''{"title":"T"}'' \<and>
          0x7B \<notin> set (js ''Here you go: '') \<and> matchesHere (js ''{"title":"T"}'')\<close>
      using pre obj by simp
    from rec [OF this] parsed out show ?thesis by simp
  qed
  have tr2: \<open>trim (js ''Sorry, no recipe today.'') = js ''Sorry, no recipe today.''\<close>
    by (simp add: trim_def isWhite_def js_def)
  have reach2: \<open>contentReached w2 (sampleRequest (Some sampleBody)) Map.empty
      = Some (js ''Sorry, no recipe today.'')\<close>
    unfolding w2_def using sample_reached [OF le] tr2 by simp
  have direct2: \<open>jsonParse w2 (js ''Sorry, no recipe today.'') = None\<close>
    by (simp add: w2_def sampleWorld_def)
  have nomatch: \<open>fallbackMatch (js ''Sorry, no recipe today.'') = None\<close>
    by (simp add: js_def matchesHere_def)
  have second: \<open>fst (handler w2 (sampleRequest (Some sampleBody)) Map.empty) = plain 500 ''Server error''\<close>
    using fallback_recovers [OF reach2 direct2, THEN conjunct2, THEN conjunct2, THEN conjunct2,
        THEN conjunct1] nomatch
    by (simp add: serverError_def)
  from first second nomatch show ?thesis
    unfolding w_def w2_def by simp
qed


section \<open>Early exits of the handler\<close>

lemma handler_post:
  assumes "httpMethod req = js ''POST''"
    and "fst (rateLimit (clientIp req) None (clock w) r)"
  shows "handler w req r =
           (fst (afterLimit w req), r(clientIp req \<mapsto> clock w), snd (afterLimit w req))"
  using assms
  by (cases "afterLimit w req")
     (auto simp: handler_def rateLimit_def Let_def split: if_splits)

lemma handler_limited:
  assumes "httpMethod req = js ''POST''"
    and "\<not> fst (rateLimit (clientIp req) None (clock w) r)"
  shows "handler w req r = (plain 429 ''Too many requests. Please slow down.'', r, [])"
  using assms by (auto simp: handler_def rateLimit_def Let_def split: if_splits)

lemma afterLimit_body_None:
  "afterLimit w (req\<lparr>body := None\<rparr>) = afterLimit w (req\<lparr>body := Some (JObj [])\<rparr>)"
  by (simp add: afterLimit_def)

lemma handler_body_None:
  "handler w (req\<lparr>body := None\<rparr>) r = handler w (req\<lparr>body := Some (JObj [])\<rparr>) r"
  unfolding handler_def clientIp_def afterLimit_body_None by simp

lemma afterLimit_status:
  "status (fst (afterLimit w req)) \<in> {200, 400, 500, 502}"
  by (auto simp: afterLimit_def afterFetch_def respond_def plain_def serverError_def Let_def
           split: sum.splits option.splits fetched.splits if_splits)

text \<open>
  C4 (as stated, refuted). A POST whose body does not parse is answered with 429, not
  400, when it arrives within the cooldown of its client; and a POST whose body is the
  JSON literal \<^verbatim>\<open>null\<close>, which has no \<^verbatim>\<open>ingredients\<close> field, is answered with 500.
\<close>

theorem missing_ingredients_other_status:
  "handler (sampleWorld 1700000001000 [] JNull) (sampleRequest None)
      [js ''203.0.113.7'' \<mapsto> 1700000000000]
     = (plain 429 ''Too many requests. Please slow down.'',
        [js ''203.0.113.7'' \<mapsto> 1700000000000], []) \<and>
   handler (sampleWorld 1700000000000 [] JNull) (sampleRequest (Some JNull)) Map.empty
     = (plain 500 ''Server error'', [js ''203.0.113.7'' \<mapsto> 1700000000000], [])"
proof -
  have "handler (sampleWorld 1700000001000 [] JNull) (sampleRequest None)
      [js ''203.0.113.7'' \<mapsto> 1700000000000]
     = (plain 429 ''Too many requests. Please slow down.'',
        [js ''203.0.113.7'' \<mapsto> 1700000000000], [])"
    by (rule handler_limited)
       (simp_all add: sampleRequest_def sampleWorld_def clientIp_def orElse_def rateLimit_def
          windowOf_def lastOf_def js_def)
  moreover have "handler (sampleWorld 1700000000000 [] JNull) (sampleRequest (Some JNull)) Map.empty
     = (plain 500 ''Server error'', [js ''203.0.113.7'' \<mapsto> 1700000000000], [])"
    by (simp add: handler_def sampleRequest_def sampleWorld_def clientIp_def orElse_def
          rateLimit_def windowOf_def lastOf_def afterLimit_def getField_def nullish_def
          serverError_def js_def)
  ultimately show ?thesis by simp
qed

text \<open>
  C4 (amended). For every POST request that passes the rate-limit check and whose body
  fails to parse as JSON, or parses to a value other than \<^verbatim>\<open>null\<close> whose
  \<^verbatim>\<open>ingredients\<close> field is absent or whose sanitized value trims to the empty string, the
  handler returns status 400 and performs no outbound call to the provider; a body parse
  failure is treated exactly as an empty object.
\<close>

theorem missing_ingredients_400:
  assumes "httpMethod req = js ''POST''"
    and "fst (rateLimit (clientIp req) None (clock w) r)"
    and "body req = None \<or>
         (\<exists>v. body req = Some v \<and> \<not> nullish v \<and>
            (ownProp v (js ''ingredients'') = JUndefined \<or>
             (\<exists>s. safeString (ownProp v (js ''ingredients'')) (Some 700) = Inr s \<and> trim s = [])))"
  shows "handler w req r
           = (plain 400 ''Missing ingredients'', r(clientIp req \<mapsto> clock w), []) \<and>
         status (plain 400 ''Missing ingredients'') = 400 \<and>
         (\<forall>w' req' r'. handler w' (req'\<lparr>body := None\<rparr>) r'
                        = handler w' (req'\<lparr>body := Some (JObj [])\<rparr>) r')"
proof -
  have "afterLimit w req = (plain 400 ''Missing ingredients'', [])"
  proof -
    from assms(3) show ?thesis
    proof (elim disjE exE conjE)
      assume "body req = None"
      then show ?thesis
        by (simp add: afterLimit_def getField_def nullish_def safeString_falsy trim_def)
    next
      fix v
      assume "body req = Some v" "\<not> nullish v" "ownProp v (js ''ingredients'') = JUndefined"
      then show ?thesis
        by (simp add: afterLimit_def getField_def safeString_falsy trim_def)
    next
      fix v s
      assume "body req = Some v" "\<not> nullish v"
        "safeString (ownProp v (js ''ingredients'')) (Some 700) = Inr s" "trim s = []"
      then show ?thesis
        by (simp add: afterLimit_def getField_def)
    qed
  qed
  with handler_post [OF assms(1,2)] handler_body_None show ?thesis
    by (simp add: plain_def)
qed

theorem missing_ingredients_400_witness:
  "handler (sampleWorld 1700000000000 [] JNull)
      (sampleRequest (Some (JObj [(js ''ingredients'', JStr (js ''   ''))]))) Map.empty
     = (plain 400 ''Missing ingredients'', [js ''203.0.113.7'' \<mapsto> 1700000000000], []) \<and>
   handler (sampleWorld 1700000000000 [] JNull) (sampleRequest None) Map.empty
     = (plain 400 ''Missing ingredients'', [js ''203.0.113.7'' \<mapsto> 1700000000000], [])"
proof -
  define w where "w = sampleWorld 1700000000000 [] JNull"
  have ip: "clientIp (sampleRequest b) = js ''203.0.113.7''" for b
    by (simp add: sampleRequest_def clientIp_def orElse_def js_def)
  have post: "httpMethod (sampleRequest b) = js ''POST''" for b
    by (simp add: sampleRequest_def)
  have pass: "fst (rateLimit (clientIp (sampleRequest b)) None (clock w) Map.empty)" for b
    by (simp add: ip w_def sampleWorld_def rateLimit_def windowOf_def lastOf_def)
  have clk: "clock w = 1700000000000"
    by (simp add: w_def sampleWorld_def)
  have blank: "body (sampleRequest (Some (JObj [(js ''ingredients'', JStr (js ''   ''))]))) = None \<or>
         (\<exists>v. body (sampleRequest (Some (JObj [(js ''ingredients'', JStr (js ''   ''))]))) = Some v \<and>
            \<not> nullish v \<and>
            (ownProp v (js ''ingredients'') = JUndefined \<or>
             (\<exists>s. safeString (ownProp v (js ''ingredients'')) (Some 700) = Inr s \<and> trim s = [])))"
    by (simp add: sampleRequest_def nullish_def safeString_Str maxOf_def slice0_nonneg trim_def
          isWhite_def js_def)
  have none: "body (sampleRequest None) = None \<or>
         (\<exists>v. body (sampleRequest None) = Some v \<and> \<not> nullish v \<and>
            (ownProp v (js ''ingredients'') = JUndefined \<or>
             (\<exists>s. safeString (ownProp v (js ''ingredients'')) (Some 700) = Inr s \<and> trim s = [])))"
    by (simp add: sampleRequest_def)
  from missing_ingredients_400 [OF post pass blank] missing_ingredients_400 [OF post pass none]
  show ?thesis
    unfolding ip clk w_def [symmetric] by simp
qed

section \<open>Method, rate limit and non-object content\<close>

text \<open>
  C8. For every request whose method is not POST, the handler returns status 405 without
  evaluating the rate limit, the body, or the credentials: the map of the rate limiter is
  left as it was, no outbound call is made, and the result is the same for every world
  and for every request with that method.
\<close>

theorem not_post_405:
  assumes "httpMethod req \<noteq> js ''POST''"
  shows "handler w req r = (plain 405 ''Method Not Allowed'', r, []) \<and>
         status (plain 405 ''Method Not Allowed'') = 405 \<and>
         (\<forall>w' req'. httpMethod req' = httpMethod req \<longrightarrow> handler w' req' r = handler w req r)"
  using assms by (simp add: handler_def plain_def)

theorem not_post_405_witness:
  "handler (sampleWorld 1700000000000 [] JNull)
     ((sampleRequest (Some sampleBody))\<lparr>httpMethod := js ''GET''\<rparr>)
     [js ''203.0.113.7'' \<mapsto> 5]
   = (plain 405 ''Method Not Allowed'', [js ''203.0.113.7'' \<mapsto> 5], [])"
proof -
  have "httpMethod ((sampleRequest (Some sampleBody))\<lparr>httpMethod := js ''GET''\<rparr>) \<noteq> js ''POST''"
    by (simp add: js_def)
  from not_post_405 [OF this] show ?thesis by simp
qed

text \<open>
  C9. For every POST request that passes the rate-limit check, whatever status it ends
  with (200, or one of the error statuses 400, 500, 502), the timestamp of its client in
  the rate limiter's map is the request's arrival time when the handler returns, so a
  following POST from the same client that arrives less than 2500 ms after it is denied
  with 429, makes no outbound call and leaves the map as it is.
\<close>

theorem error_consumes_window:
  assumes "httpMethod req = js ''POST''"
    and "fst (rateLimit (clientIp req) None (clock w) r)"
    and "handler w req r = (resp, r', calls)"
    and "httpMethod req2 = js ''POST''"
    and "clientIp req2 = clientIp req"
    and "clock w2 - clock w < 2500"
  shows "status resp \<in> {200, 400, 500, 502} \<and>
         r' = r(clientIp req \<mapsto> clock w) \<and>
         handler w2 req2 r' = (plain 429 ''Too many requests. Please slow down.'', r', []) \<and>
         status (plain 429 ''Too many requests. Please slow down.'') = 429"
proof -
  from handler_post [OF assms(1,2)] assms(3)
  have resp: "resp = fst (afterLimit w req)" and r': "r' = r(clientIp req \<mapsto> clock w)"
    by simp_all
  have "\<not> fst (rateLimit (clientIp req2) None (clock w2) r')"
    using assms(5,6) by (simp add: r' rateLimit_def windowOf_def lastOf_def)
  from handler_limited [OF assms(4) this] resp r' afterLimit_status [of w req]
  show ?thesis by (simp add: plain_def)
qed

theorem error_consumes_window_witness:
  "handler (sampleWorld 1700000000000 [] JNull) (sampleRequest (Some (JObj []))) Map.empty
     = (plain 400 ''Missing ingredients'', [js ''203.0.113.7'' \<mapsto> 1700000000000], []) \<and>
   handler (sampleWorld 1700000002499 [] JNull) (sampleRequest (Some sampleBody))
       [js ''203.0.113.7'' \<mapsto> 1700000000000]
     = (plain 429 ''Too many requests. Please slow down.'',
        [js ''203.0.113.7'' \<mapsto> 1700000000000], [])"
proof -
  define w where "w = sampleWorld 1700000000000 [] JNull"
  define w2 where "w2 = sampleWorld 1700000002499 [] JNull"
  have ip: "clientIp (sampleRequest b) = js ''203.0.113.7''" for b
    by (simp add: sampleRequest_def clientIp_def orElse_def js_def)
  have post: "httpMethod (sampleRequest b) = js ''POST''" for b
    by (simp add: sampleRequest_def)
  have pass: "fst (rateLimit (clientIp (sampleRequest b)) None (clock w) Map.empty)" for b
    by (simp add: ip w_def sampleWorld_def rateLimit_def windowOf_def lastOf_def)
  have bd: "body (sampleRequest b) = b" for b
    by (simp add: sampleRequest_def)
  have first: "handler w (sampleRequest (Some (JObj []))) Map.empty
     = (plain 400 ''Missing ingredients'', [js ''203.0.113.7'' \<mapsto> 1700000000000], [])"
    unfolding handler_post [OF post pass] ip
    by (simp add: bd w_def sampleWorld_def afterLimit_def getField_def
          nullish_def safeString_falsy trim_def)
  have near: "clock w2 - clock w < 2500"
    by (simp add: w_def w2_def sampleWorld_def)
  have clk: "clock w = 1700000000000"
    by (simp add: w_def sampleWorld_def)
  from error_consumes_window [OF post pass first post _ near, of "Some sampleBody"] first
  show ?thesis
    unfolding w_def [symmetric] w2_def [symmetric] by (simp add: ip clk)
qed

text \<open>
  C10. When the provider's content parses, directly or through the fallback, to the JSON
  literal \<^verbatim>\<open>null\<close>, the handler returns status 500; when it parses to a number, a
  string or a boolean, the handler returns status 200 with title, intro and note equal to
  the empty string and steps and optional equal to the empty sequence.
\<close>

theorem non_object_content:
  assumes "contentReached w req r = Some content0"
    and "parseContent (jsonParse w) content0 = Inr v"
  shows "(v = JNull \<longrightarrow> fst (handler w req r) = serverError \<and>
            status (fst (handler w req r)) = 500) \<and>
         ((\<exists>n. v = JNum n) \<or> (\<exists>s. v = JStr s) \<or> (\<exists>b. v = JBool b) \<longrightarrow>
            fst (handler w req r) =
              \<lparr>status = 200,
               content = Json \<lparr>title = [], intro = [], steps = [], optional = [], note' = []\<rparr>\<rparr>)"
proof -
  have h: "fst (handler w req r) =
      (case buildOut v of Inl e \<Rightarrow> serverError
       | Inr res \<Rightarrow> \<lparr>status = 200, content = Json res\<rparr>)"
    using handler_reached [OF assms(1)] respond_parsed [OF assms(2)] by simp
  have null: "buildOut JNull = Inl TypeError"
    by (simp add: buildOut_def getField_def nullish_def)
  have prim: "buildOut v = Inr \<lparr>title = [], intro = [], steps = [], optional = [], note' = []\<rparr>"
    if "(\<exists>n. v = JNum n) \<or> (\<exists>s. v = JStr s) \<or> (\<exists>b. v = JBool b)"
    using that
    by (auto simp: buildOut_Inr_iff nullish_def safeString_falsy stepsOf_def optionalOf_def)
  from h null prim show ?thesis by auto
qed

theorem non_object_content_witness:
  "fst (handler (sampleWorld 1700000000000 [(js ''null'', JNull)] (JStr (js ''null'')))
          (sampleRequest (Some sampleBody)) Map.empty) = plain 500 ''Server error'' \<and>
   fst (handler (sampleWorld 1700000000000 [(js ''42'', JNum (JsNum False (js ''42'')))]
                   (JStr (js '' 42 '')))
          (sampleRequest (Some sampleBody)) Map.empty)
     = \<lparr>status = 200,
        content = Json \<lparr>title = [], intro = [], steps = [], optional = [], note' = []\<rparr>\<rparr>"
proof -
  have le: "(2500::int) \<le> 1700000000000" by simp
  have t1: "trim (js ''null'') = js ''null''"
    by (simp add: trim_def isWhite_def js_def)
  have t2: "trim (js '' 42 '') = js ''42''"
    by (simp add: trim_def isWhite_def js_def)
  have r1: "contentReached (sampleWorld 1700000000000 [(js ''null'', JNull)] (JStr (js ''null'')))
          (sampleRequest (Some sampleBody)) Map.empty = Some (js ''null'')"
    using sample_reached [OF le] t1 by simp
  have p1: "parseContent (jsonParse (sampleWorld 1700000000000 [(js ''null'', JNull)] (JStr (js ''null''))))
              (js ''null'') = Inr JNull"
    by (simp add: parseContent_def sampleWorld_def)
  have r2: "contentReached (sampleWorld 1700000000000 [(js ''42'', JNum (JsNum False (js ''42'')))]
                   (JStr (js '' 42 '')))
          (sampleRequest (Some sampleBody)) Map.empty = Some (js ''42'')"
    using sample_reached [OF le] t2 by simp
  have p2: "parseContent (jsonParse (sampleWorld 1700000000000 [(js ''42'', JNum (JsNum False (js ''42'')))]
                   (JStr (js '' 42 ''))))
              (js ''42'') = Inr (JNum (JsNum False (js ''42'')))"
    by (simp add: parseContent_def sampleWorld_def)
  from non_object_content [OF r1 p1] non_object_content [OF r2 p2]
  show ?thesis by (simp add: serverError_def)
qed

end
